theory Spec2Isabelle
  imports Complex_Main
begin

section \<open>The clip analyser \<open>analyze_clip_sizes.py\<close>\<close>

text \<open>
  A shallow embedding of \<^verbatim>\<open>analyze_clips_advanced\<close>. Python floats are idealised as
  \<^typ>\<open>real\<close> (rounding, overflow, infinities and NaN are not modelled), Python ints as
  \<^typ>\<open>int\<close>, dictionaries whose iteration order matters as association lists in
  insertion order, and every exception that can leave the function as a value
  \<open>Inl e\<close> of a sum type. Console output is modelled only as far as it decides what is
  computed or which exception is raised.
  Since a float operation rounds, an identity of real arithmetic between two computed
  values need not hold of the program; the claims are therefore stated on the values the
  program computes (the quartiles, the bounds, the means, the percentages), not on
  closed forms of them.
\<close>

subsection \<open>Errors\<close>

datatype py_error = StatisticsError | ZeroDivisionError | TypeError | IndexError

definition bindE :: "py_error + 'a \<Rightarrow> ('a \<Rightarrow> py_error + 'b) \<Rightarrow> py_error + 'b" where
  "bindE m f = (case m of Inl e \<Rightarrow> Inl e | Inr a \<Rightarrow> f a)"

definition py_div :: "real \<Rightarrow> real \<Rightarrow> py_error + real" where
  \<comment> \<open>\<^verbatim>\<open>a / b\<close>: raises ZeroDivisionError when the divisor is zero.\<close>
  "py_div a b = (if b = 0 then Inl ZeroDivisionError else Inr (a / b))"

subsection \<open>Clip records (lines 28--70)\<close>

text \<open>
  What \<^verbatim>\<open>VideoFileClip\<close> reports for one file: \<^verbatim>\<open>clip.duration\<close>, \<^verbatim>\<open>clip.fps\<close>
  (possibly \<^verbatim>\<open>None\<close>), \<^verbatim>\<open>clip.size\<close> (possibly falsy) and whether \<^verbatim>\<open>clip.audio\<close> is
  not \<^verbatim>\<open>None\<close>.
\<close>

record metadata =
  clip_duration :: real
  clip_fps :: "real option"
  clip_size :: "(int \<times> int) option"
  clip_audio :: bool

text \<open>The dictionary appended to \<^verbatim>\<open>clips_data\<close>, one field per key.\<close>

record clip_data =
  filename :: string
  file_size :: int
  duration :: real
  fps :: "real option"
  width :: int
  height :: int
  resolution :: string
  has_audio :: bool
  bitrate :: real
  bytes_per_second :: real
  pixels_per_frame :: int
  total_frames :: real

definition truthy :: "real option \<Rightarrow> bool" where
  \<comment> \<open>Python truthiness of an optional number: neither \<^verbatim>\<open>None\<close> nor zero.\<close>
  "truthy x = (case x of None \<Rightarrow> False | Some v \<Rightarrow> v \<noteq> 0)"

fun str_of_nat :: "nat \<Rightarrow> string" where
  "str_of_nat n =
     (if n < 10 then [char_of (48 + n)]
      else str_of_nat (n div 10) @ [char_of (48 + n mod 10)])"

declare str_of_nat.simps [simp del]

definition str_of_int :: "int \<Rightarrow> string" where
  \<comment> \<open>The decimal text an f-string gives an int.\<close>
  "str_of_int i = (if i < 0 then CHR ''-'' # str_of_nat (nat (- i)) else str_of_nat (nat i))"

definition build_record :: "string \<Rightarrow> int \<Rightarrow> metadata \<Rightarrow> clip_data" where
  \<comment> \<open>Lines 41--59: the derived metrics and the appended dictionary.\<close>
  "build_record name fsize md =
     (let d = clip_duration md; f = clip_fps md; res = clip_size md in
      \<lparr> filename = name,
        file_size = fsize,
        duration = d,
        fps = f,
        width = (case res of Some (w, h) \<Rightarrow> w | None \<Rightarrow> 0),
        height = (case res of Some (w, h) \<Rightarrow> h | None \<Rightarrow> 0),
        resolution = (case res of Some (w, h) \<Rightarrow> str_of_int w @ ''x'' @ str_of_int h
                                | None \<Rightarrow> ''Unknown''),
        has_audio = clip_audio md,
        bitrate = (if d > 0 then of_int (fsize * 8) / d else 0),
        bytes_per_second = (if d > 0 then of_int fsize / d else 0),
        pixels_per_frame = (case res of Some (w, h) \<Rightarrow> w * h | None \<Rightarrow> 0),
        total_frames = (if truthy f then d * the f else 0) \<rparr>)"

text \<open>
  The outcome of the \<^verbatim>\<open>try\<close> body for one file. \<open>ProbeFailed msg\<close>: \<^verbatim>\<open>stat\<close>,
  \<^verbatim>\<open>VideoFileClip\<close> or an attribute read raised before the record was appended.
  \<open>Probed size md close_err\<close>: the record was built from the file size and the
  metadata; \<open>close_err\<close> is the message of an exception raised by \<^verbatim>\<open>clip.close()\<close>
  (line 61), which comes after the append and before \<^verbatim>\<open>file_count += 1\<close>.
\<close>

datatype probe = ProbeFailed string | Probed int metadata "string option"

record scan_state =
  clips_data :: "clip_data list"
  file_count :: nat
  errors :: "(string \<times> string) list"

fun scan_file :: "scan_state \<Rightarrow> string \<times> probe \<Rightarrow> scan_state" where
  "scan_file st (name, ProbeFailed msg) = st\<lparr>errors := errors st @ [(name, msg)]\<rparr>"
| "scan_file st (name, Probed fsize md None) =
     st\<lparr>clips_data := clips_data st @ [build_record name fsize md],
        file_count := file_count st + 1\<rparr>"
| "scan_file st (name, Probed fsize md (Some msg)) =
     st\<lparr>clips_data := clips_data st @ [build_record name fsize md],
        errors := errors st @ [(name, msg)]\<rparr>"

definition scan_files :: "(string \<times> probe) list \<Rightarrow> scan_state" where
  \<comment> \<open>Lines 24--70: the loop over \<^verbatim>\<open>mp4_files\<close>.\<close>
  "scan_files files = foldl scan_file \<lparr>clips_data = [], file_count = 0, errors = []\<rparr> files"

subsection \<open>The \<^verbatim>\<open>statistics\<close> module and built-ins, as far as the function uses them\<close>

definition mean :: "real list \<Rightarrow> py_error + real" where
  \<comment> \<open>\<^verbatim>\<open>statistics.mean\<close>: the exact sum over the count; StatisticsError on no data.\<close>
  "mean xs = (if xs = [] then Inl StatisticsError else Inr (sum_list xs / real (length xs)))"

datatype quantile_method = Exclusive | Inclusive

text \<open>
  \<^verbatim>\<open>statistics.quantiles(data, n=n, method=method)\<close> of the standard library, which the
  repository calls and does not define. A sample of one point raises StatisticsError up
  to Python 3.12 and yields that point \<open>n - 1\<close> times from Python 3.13 on; the flag
  \<open>single_ok\<close> selects the later behaviour, and every result below holds for both.
\<close>

definition inclusive_cut :: "real list \<Rightarrow> nat \<Rightarrow> nat \<Rightarrow> real" where
  \<comment> \<open>The body of the loop \<^verbatim>\<open>for i in range(1, n)\<close> under \<^verbatim>\<open>method == 'inclusive'\<close>,
      on the sorted data.\<close>
  "inclusive_cut data n i =
     (let ld = length data;
          m = ld - 1;
          j = (i * m) div n;
          delta = (i * m) mod n
      in (data ! j * real (n - delta) + data ! (j + 1) * real delta) / real n)"

definition exclusive_cut :: "real list \<Rightarrow> nat \<Rightarrow> nat \<Rightarrow> real" where
  \<comment> \<open>The body of the loop under \<^verbatim>\<open>method == 'exclusive'\<close>: \<^verbatim>\<open>j\<close> is clamped to
      \<open>1 .. ld - 1\<close> and \<^verbatim>\<open>delta = i*m - j*n\<close> may then leave \<open>0 .. n\<close>.\<close>
  "exclusive_cut data n i =
     (let ld = length data;
          m = ld + 1;
          j0 = (i * m) div n;
          j = (if j0 < 1 then 1 else if j0 > ld - 1 then ld - 1 else j0);
          delta = int (i * m) - int (j * n)
      in (data ! (j - 1) * of_int (int n - delta) + data ! j * of_int delta) / real n)"

definition quantiles :: "bool \<Rightarrow> real list \<Rightarrow> nat \<Rightarrow> quantile_method \<Rightarrow> py_error + real list" where
  "quantiles single_ok xs n method =
     (if n < 1 then Inl StatisticsError
      else let data = sort xs; ld = length data in
        if ld < 2 then
          (if ld = 1 \<and> single_ok then Inr (concat (replicate (n - 1) data))
           else Inl StatisticsError)
        else (case method of
          Inclusive \<Rightarrow> Inr (map (inclusive_cut data n) [1..<n])
        | Exclusive \<Rightarrow> Inr (map (exclusive_cut data n) [1..<n])))"

definition py_round :: "real \<Rightarrow> int" where
  \<comment> \<open>\<^verbatim>\<open>round(x)\<close> on a float: to the nearest integer, a tie to the even one.\<close>
  "py_round x =
     (let f = \<lfloor>x\<rfloor>; d = x - of_int f in
      if d < 1 / 2 then f else if d > 1 / 2 then f + 1 else if even f then f else f + 1)"

definition sorted_desc :: "('a \<Rightarrow> 'k::{linorder, uminus}) \<Rightarrow> 'a list \<Rightarrow> 'a list" where
  \<comment> \<open>\<^verbatim>\<open>sorted(xs, key=key, reverse=True)\<close>: descending by key and stable, so elements
      with equal keys keep their original order.\<close>
  "sorted_desc key xs = sort_key (\<lambda>x. - key x) xs"

subsection \<open>Grouping (lines 157--190)\<close>

text \<open>
  A dictionary of lists in insertion order. \<open>group_add\<close> is the loop body
  \<^verbatim>\<open>if k not in groups: groups[k] = []\<close> followed by \<^verbatim>\<open>groups[k].append(v)\<close>.
\<close>

fun group_add :: "'k \<Rightarrow> 'v \<Rightarrow> ('k \<times> 'v list) list \<Rightarrow> ('k \<times> 'v list) list" where
  "group_add k v [] = [(k, [v])]"
| "group_add k v ((k', vs) # g) =
     (if k = k' then (k', vs @ [v]) # g else (k', vs) # group_add k v g)"

definition group_by :: "(clip_data \<Rightarrow> 'k) \<Rightarrow> clip_data list \<Rightarrow> ('k \<times> real list) list" where
  "group_by key cs = foldl (\<lambda>g c. group_add (key c) (bytes_per_second c) g) [] cs"

definition res_groups :: "clip_data list \<Rightarrow> (string \<times> real list) list" where
  \<comment> \<open>Lines 157--162.\<close>
  "res_groups cs = group_by resolution cs"

definition fps_rounded :: "clip_data \<Rightarrow> int" where
  \<comment> \<open>Line 173: \<^verbatim>\<open>round(c['fps']) if c['fps'] else 0\<close>.\<close>
  "fps_rounded c = (if truthy (fps c) then py_round (the (fps c)) else 0)"

definition fps_groups :: "clip_data list \<Rightarrow> (int \<times> real list) list" where
  \<comment> \<open>Lines 171--176.\<close>
  "fps_groups cs = group_by fps_rounded cs"

definition audio_groups :: "clip_data list \<Rightarrow> real list \<times> real list" where
  \<comment> \<open>Lines 185--190: the lists under \<^verbatim>\<open>'with_audio'\<close> and \<^verbatim>\<open>'without_audio'\<close>.\<close>
  "audio_groups cs =
     (map bytes_per_second (filter has_audio cs),
      map bytes_per_second (filter (\<lambda>c. \<not> has_audio c) cs))"

text \<open>
  The lines printed under "Bytes/second by resolution" and "Bytes/second by FPS"
  (lines 165--168 and 179--182): key, mean and sample count of each group shown, in the
  order shown.
\<close>

definition group_line :: "'k \<times> real list \<Rightarrow> 'k \<times> real \<times> nat" where
  "group_line g = (fst g, sum_list (snd g) / real (length (snd g)), length (snd g))"

definition res_emitted :: "clip_data list \<Rightarrow> (string \<times> real \<times> nat) list" where
  "res_emitted cs =
     map group_line
       (filter (\<lambda>g. length (snd g) \<ge> 3)
          (sorted_desc (\<lambda>g. int (length (snd g))) (res_groups cs)))"

definition fps_emitted :: "clip_data list \<Rightarrow> (int \<times> real \<times> nat) list" where
  "fps_emitted cs =
     map group_line
       (filter (\<lambda>g. length (snd g) \<ge> 3 \<and> fst g > 0)
          (sorted_desc (\<lambda>g. int (length (snd g))) (fps_groups cs)))"

subsection \<open>Outlier detection (lines 217--230)\<close>

definition py_index :: "'a list \<Rightarrow> nat \<Rightarrow> py_error + 'a" where
  \<comment> \<open>\<^verbatim>\<open>xs[i]\<close> for a literal index \<open>i \<ge> 0\<close>.\<close>
  "py_index xs i = (if i < length xs then Inr (xs ! i) else Inl IndexError)"

definition quartiles :: "bool \<Rightarrow> real list \<Rightarrow> py_error + real \<times> real" where
  \<comment> \<open>Lines 217--218: \<^verbatim>\<open>q1 = statistics.quantiles(bytes_per_sec, n=4)[0]\<close> and
      \<^verbatim>\<open>q3 = statistics.quantiles(bytes_per_sec, n=4)[2]\<close>; the method is the default.\<close>
  "quartiles single_ok xs =
     bindE (quantiles single_ok xs 4 Exclusive) (\<lambda>qs.
     bindE (py_index qs 0) (\<lambda>q1.
     bindE (quantiles single_ok xs 4 Exclusive) (\<lambda>qs'.
     bindE (py_index qs' 2) (\<lambda>q3.
     Inr (q1, q3)))))"

record detection =
  lower_bound :: real
  upper_bound :: real
  outliers :: "clip_data list"
  high_outliers :: "clip_data list"
  low_outliers :: "clip_data list"

definition detect_outliers :: "bool \<Rightarrow> clip_data list \<Rightarrow> py_error + detection" where
  \<comment> \<open>Lines 217--230. The high and low lists exist only under \<^verbatim>\<open>if outliers:\<close>.\<close>
  "detect_outliers single_ok cs =
     bindE (quartiles single_ok (map bytes_per_second cs)) (\<lambda>(q1, q3).
       let iqr = q3 - q1;
           lb = q1 - 1.5 * iqr;
           ub = q3 + 1.5 * iqr;
           outs = filter (\<lambda>c. bytes_per_second c < lb \<or> bytes_per_second c > ub) cs
       in Inr \<lparr> lower_bound = lb, upper_bound = ub, outliers = outs,
                high_outliers =
                  (if outs \<noteq> [] then filter (\<lambda>c. bytes_per_second c > ub) outs else []),
                low_outliers =
                  (if outs \<noteq> [] then filter (\<lambda>c. bytes_per_second c < lb) outs else []) \<rparr>)"

subsection \<open>Outlier listing (lines 232--250)\<close>

definition show_outliers :: "clip_data list \<Rightarrow> py_error + unit" where
  \<comment> \<open>Lines 236--238 and 246--248: up to ten clips are printed, \<^verbatim>\<open>c['fps']\<close> with the
      format \<^verbatim>\<open>.1f\<close>, which raises TypeError on \<^verbatim>\<open>None\<close>.\<close>
  "show_outliers cs = (if \<exists>c \<in> set (take 10 cs). fps c = None then Inl TypeError else Inr ())"

definition list_outliers :: "detection \<Rightarrow> py_error + clip_data list \<times> clip_data list" where
  \<comment> \<open>The in-place sorts of lines 235 and 245 and the two listings; the result is the
      pair of lists as they stand afterwards.\<close>
  "list_outliers d =
     bindE (if high_outliers d \<noteq> [] then
              (let hs = sorted_desc bytes_per_second (high_outliers d)
               in bindE (show_outliers hs) (\<lambda>_. Inr hs))
            else Inr (high_outliers d)) (\<lambda>hs.
     bindE (if low_outliers d \<noteq> [] then
              (let ls = sort_key bytes_per_second (low_outliers d)
               in bindE (show_outliers ls) (\<lambda>_. Inr ls))
            else Inr (low_outliers d)) (\<lambda>ls.
     Inr (hs, ls)))"

subsection \<open>High outliers against normal clips (lines 256--337)\<close>

datatype finding =
    FpsDifference real
  | BitrateDifference real
  | ResolutionDifference real
  | AudioPresenceDifference real

record comparison =
  normal_clips :: "clip_data list"
  high_avg_fps :: real
  normal_avg_fps :: real
  fps_percent :: "real option"
  high_avg_bitrate :: real
  normal_avg_bitrate :: real
  bitrate_percent :: "real option"
  high_avg_duration :: real
  normal_avg_duration :: real
  duration_percent :: "real option"
  high_audio_pct :: real
  normal_audio_pct :: real
  high_avg_pixels :: real
  normal_avg_pixels :: real
  pixels_percent :: "real option"
  findings :: "finding list"

definition percent_diff :: "real \<Rightarrow> real \<Rightarrow> py_error + real" where
  \<comment> \<open>\<^verbatim>\<open>(a/b - 1)*100\<close>.\<close>
  "percent_diff a b = bindE (py_div a b) (\<lambda>q. Inr ((q - 1) * 100))"

definition printed_percent :: "bool \<Rightarrow> real \<Rightarrow> real \<Rightarrow> py_error + real option" where
  \<comment> \<open>The "Difference" line of a field, printed under \<^verbatim>\<open>if normal_clips:\<close>.\<close>
  "printed_percent has_normal a b =
     (if has_normal then bindE (percent_diff a b) (\<lambda>p. Inr (Some p)) else Inr None)"

definition truthy_fps :: "clip_data list \<Rightarrow> real list" where
  \<comment> \<open>\<^verbatim>\<open>[c['fps'] for c in cs if c['fps']]\<close>.\<close>
  "truthy_fps cs = map (\<lambda>c. the (fps c)) (filter (\<lambda>c. truthy (fps c)) cs)"

definition audio_pct :: "clip_data list \<Rightarrow> real" where
  \<comment> \<open>\<^verbatim>\<open>sum(1 for c in cs if c['has_audio']) / len(cs) * 100\<close>, on a non-empty list.\<close>
  "audio_pct cs = real (length (filter has_audio cs)) / real (length cs) * 100"

definition key_findings :: "real \<Rightarrow> real \<Rightarrow> real \<Rightarrow> real \<Rightarrow> real \<Rightarrow> real \<Rightarrow> real \<Rightarrow> real
    \<Rightarrow> py_error + finding list" where
  \<comment> \<open>Lines 323--330.\<close>
  "key_findings high_fps normal_fps high_bitrate normal_bitrate high_pixels normal_pixels
       high_audio normal_audio =
     bindE (percent_diff high_fps normal_fps) (\<lambda>p1.
     bindE (percent_diff high_bitrate normal_bitrate) (\<lambda>p2.
     bindE (percent_diff high_pixels normal_pixels) (\<lambda>p3.
     Inr ((if \<bar>p1\<bar> > 10 then [FpsDifference p1] else [])
        @ (if \<bar>p2\<bar> > 10 then [BitrateDifference p2] else [])
        @ (if \<bar>p3\<bar> > 10 then [ResolutionDifference p3] else [])
        @ (if \<bar>high_audio - normal_audio\<bar> > 20
           then [AudioPresenceDifference (high_audio - normal_audio)] else [])))))"

definition compare_high_to_normal :: "clip_data list \<Rightarrow> clip_data list \<Rightarrow> py_error + comparison" where
  \<comment> \<open>The body of \<^verbatim>\<open>if high_outliers:\<close> (line 256), given the sorted high outliers and
      \<^verbatim>\<open>normal_clips\<close>; the statements that can raise are kept in the source's order.\<close>
  "compare_high_to_normal highs normals =
     (let has_normal = (normals \<noteq> []) in
      bindE (mean (truthy_fps highs)) (\<lambda>high_fps.
      bindE (if has_normal then mean (truthy_fps normals) else Inr 0) (\<lambda>normal_fps.
      bindE (printed_percent has_normal high_fps normal_fps) (\<lambda>fps_pc.
      bindE (mean (map bitrate highs)) (\<lambda>high_bitrate.
      bindE (if has_normal then mean (map bitrate normals) else Inr 0) (\<lambda>normal_bitrate.
      bindE (printed_percent has_normal high_bitrate normal_bitrate) (\<lambda>bitrate_pc.
      bindE (mean (map duration highs)) (\<lambda>high_duration.
      bindE (if has_normal then mean (map duration normals) else Inr 0) (\<lambda>normal_duration.
      bindE (printed_percent has_normal high_duration normal_duration) (\<lambda>duration_pc.
      let high_audio = audio_pct highs;
          normal_audio = (if has_normal then audio_pct normals else 0) in
      bindE (mean (map (\<lambda>c. of_int (pixels_per_frame c)) highs)) (\<lambda>high_pixels.
      bindE (if has_normal then mean (map (\<lambda>c. of_int (pixels_per_frame c)) normals)
             else Inr 0) (\<lambda>normal_pixels.
      bindE (printed_percent has_normal high_pixels normal_pixels) (\<lambda>pixels_pc.
      bindE (if has_normal
             then key_findings high_fps normal_fps high_bitrate normal_bitrate
                    high_pixels normal_pixels high_audio normal_audio
             else Inr []) (\<lambda>fs.
      Inr \<lparr> normal_clips = normals,
            high_avg_fps = high_fps, normal_avg_fps = normal_fps, fps_percent = fps_pc,
            high_avg_bitrate = high_bitrate, normal_avg_bitrate = normal_bitrate,
            bitrate_percent = bitrate_pc,
            high_avg_duration = high_duration, normal_avg_duration = normal_duration,
            duration_percent = duration_pc,
            high_audio_pct = high_audio, normal_audio_pct = normal_audio,
            high_avg_pixels = high_pixels, normal_avg_pixels = normal_pixels,
            pixels_percent = pixels_pc,
            findings = fs \<rparr>))))))))))))))"

subsection \<open>The outlier section and the whole function\<close>

datatype outlier_class = HighOutlier | LowOutlier

text \<open>
  What the outlier section (lines 216--339) computes: the detection, with the high and
  low lists as sorted for display, and the comparison blocks it ran, each with the class
  it compares to the normal clips. The source has one such block, "High Outliers vs
  Normal Clips".
\<close>

record outlier_report =
  detected :: detection
  comparisons :: "(outlier_class \<times> comparison) list"

definition outlier_section :: "bool \<Rightarrow> clip_data list \<Rightarrow> py_error + outlier_report" where
  "outlier_section single_ok cs =
     bindE (detect_outliers single_ok cs) (\<lambda>d.
       if outliers d \<noteq> [] then
         bindE (list_outliers d) (\<lambda>(hs, ls).
         bindE (if hs \<noteq> [] then
                  bindE (compare_high_to_normal hs
                           (filter (\<lambda>c. lower_bound d \<le> bytes_per_second c
                                         \<and> bytes_per_second c \<le> upper_bound d) cs))
                        (\<lambda>c. Inr [(HighOutlier, c)])
                else Inr []) (\<lambda>cmps.
         Inr \<lparr> detected = d\<lparr>high_outliers := hs, low_outliers := ls\<rparr>,
               comparisons = cmps \<rparr>))
       else Inr \<lparr> detected = d, comparisons = [] \<rparr>)"

record directory =
  dir_exists :: bool
  mp4_files :: "(string \<times> probe) list"

definition analyze_clips_advanced :: "bool \<Rightarrow> directory \<Rightarrow> py_error + clip_data list option" where
  \<comment> \<open>The value returned: \<open>Inr None\<close> for a bare \<^verbatim>\<open>return\<close>, \<open>Inr (Some clips_data)\<close> for
      line 351, \<open>Inl e\<close> when the exception \<open>e\<close> leaves the function. The statistics
      printed between lines 76 and 214 raise nothing once \<^verbatim>\<open>file_count > 0\<close>.\<close>
  "analyze_clips_advanced single_ok d =
     (if \<not> dir_exists d then Inr None
      else if mp4_files d = [] then Inr None
      else let st = scan_files (mp4_files d) in
        if file_count st = 0 then Inr None
        else bindE (outlier_section single_ok (clips_data st)) (\<lambda>_.
             Inr (Some (clips_data st))))"

subsection \<open>Quartile rules in rank form\<close>

text \<open>
  The two textbook rules for the \<open>k\<close>-th quartile of a sample, stated on fractional ranks
  of the sorted sample and independent of the library code above.

  The inclusive rule takes the minimum and the maximum as the 0th and the 4th quartile:
  the \<open>k\<close>-th quartile sits at the 0-based rank \<open>k (n - 1) / 4\<close>, between the order
  statistics around it.
\<close>

definition inclusive_quartile :: "nat \<Rightarrow> real list \<Rightarrow> real" where
  "inclusive_quartile k xs =
     (let s = sort xs;
          h = real k * real (length xs - 1) / 4;
          j = nat \<lfloor>h\<rfloor>
      in if j + 1 < length s then s ! j + (h - real j) * (s ! (j + 1) - s ! j) else s ! j)"

text \<open>
  The exclusive rule puts the \<open>k\<close>-th quartile at the 1-based rank \<open>k (n + 1) / 4\<close>; the
  lower neighbour is kept within \<open>1 .. n - 1\<close>, so that on a sample of two or three
  points the line through the outermost pair is extended beyond it.
\<close>

definition exclusive_quartile :: "nat \<Rightarrow> real list \<Rightarrow> real" where
  "exclusive_quartile k xs =
     (let s = sort xs;
          ld = length xs;
          h = real k * real (ld + 1) / 4;
          j = min (max 1 (nat \<lfloor>h\<rfloor>)) (ld - 1)
      in s ! (j - 1) + (h - real j) * (s ! j - s ! (j - 1)))"

subsection \<open>Reading the findings by tracked field\<close>

datatype tracked_field = Fps | Bitrate | PixelsPerFrame | AudioPresence | Duration

fun finding_field :: "finding \<Rightarrow> tracked_field" where
  "finding_field (FpsDifference p) = Fps"
| "finding_field (BitrateDifference p) = Bitrate"
| "finding_field (ResolutionDifference p) = PixelsPerFrame"
| "finding_field (AudioPresenceDifference p) = AudioPresence"

definition surfaced :: "comparison \<Rightarrow> tracked_field \<Rightarrow> bool" where
  "surfaced c f = (\<exists>x \<in> set (findings c). finding_field x = f)"

definition first_seen :: "('a \<Rightarrow> 'k) \<Rightarrow> 'a list \<Rightarrow> 'k \<Rightarrow> nat" where
  \<comment> \<open>The position of the first element of \<open>cs\<close> whose key is \<open>k\<close>.\<close>
  "first_seen key cs k = length (takeWhile (\<lambda>c. key c \<noteq> k) cs)"

subsection \<open>Example inputs\<close>

definition hd_meta :: "real \<Rightarrow> real option \<Rightarrow> metadata" where
  "hd_meta d f = \<lparr> clip_duration = d, clip_fps = f, clip_size = Some (1920, 1080),
                   clip_audio = True \<rparr>"

definition example_clip :: "int \<Rightarrow> clip_data" where
  \<comment> \<open>A one-second clip of \<open>b\<close> bytes, so \<open>b\<close> bytes per second.\<close>
  "example_clip b = build_record ''clip.mp4'' b (hd_meta 1 (Some 30))"

definition fence_sample :: "clip_data list" where
  \<comment> \<open>Eleven clips with \<open>Q1 = 10\<close> and \<open>Q3 = 30\<close>.\<close>
  "fence_sample = map example_clip [-25, 10, 10, 20, 20, 20, 20, 20, 30, 45, 65]"

definition short_clips :: "clip_data list" where
  \<comment> \<open>Six one-second clips of 1000 bytes.\<close>
  "short_clips = replicate 6 (build_record ''short.mp4'' 1000 (hd_meta 1 (Some 30)))"

definition long_clip :: clip_data where
  \<comment> \<open>A two-second clip of 20000 bytes: ten times the rate of the short clips.\<close>
  "long_clip = build_record ''long.mp4'' 20000 (hd_meta 2 (Some 30))"

definition low_outlier_sample :: "clip_data list" where
  \<comment> \<open>One clip of 1 byte per second among six of 100.\<close>
  "low_outlier_sample = example_clip 1 # replicate 6 (example_clip 100)"

definition long_vs_short :: comparison where
  \<comment> \<open>The long clip against the six short ones.\<close>
  "long_vs_short =
     \<lparr> normal_clips = short_clips,
       high_avg_fps = 30, normal_avg_fps = 30, fps_percent = Some 0,
       high_avg_bitrate = 80000, normal_avg_bitrate = 8000, bitrate_percent = Some 900,
       high_avg_duration = 2, normal_avg_duration = 1, duration_percent = Some 100,
       high_audio_pct = 100, normal_audio_pct = 100,
       high_avg_pixels = 2073600, normal_avg_pixels = 2073600, pixels_percent = Some 0,
       findings = [BitrateDifference 900] \<rparr>"

definition low_only_report :: outlier_report where
  \<comment> \<open>What the outlier section computes on \<open>low_outlier_sample\<close>.\<close>
  "low_only_report =
     \<lparr> detected = \<lparr> lower_bound = 100, upper_bound = 100, outliers = [example_clip 1],
                      high_outliers = [], low_outliers = [example_clip 1] \<rparr>,
       comparisons = [] \<rparr>"

definition clip_of :: "int \<times> int \<Rightarrow> real option \<Rightarrow> int \<Rightarrow> clip_data" where
  \<comment> \<open>A one-second clip with audio, of the given size, frame rate and byte count.\<close>
  "clip_of res f b =
     build_record ''clip.mp4'' b
       \<lparr> clip_duration = 1, clip_fps = f, clip_size = Some res, clip_audio = True \<rparr>"

definition mixed_sample :: "clip_data list" where
  \<comment> \<open>Ten clips: three resolutions with 3, 4 and 3 clips, and the rounded frame rates
      30, 60 and 24 beside three clips without a usable frame rate.\<close>
  "mixed_sample =
     [clip_of (1280, 720) (Some 29.97) 10, clip_of (1920, 1080) (Some 60) 20,
      clip_of (1280, 720) (Some 30) 30, clip_of (1920, 1080) (Some 59.94) 40,
      clip_of (640, 480) None 50, clip_of (1280, 720) (Some 30) 60,
      clip_of (1920, 1080) (Some 60) 70, clip_of (640, 480) None 5,
      clip_of (640, 480) (Some 0) 6, clip_of (1920, 1080) (Some 24) 80]"

definition stills_and_one :: "(string \<times> probe) list" where
  \<comment> \<open>Six files of duration zero and one ordinary file.\<close>
  "stills_and_one =
     replicate 6 (''still.mp4'', Probed 1000 (hd_meta 0 (Some 30)) None)
     @ [(''clip.mp4'', Probed 1000 (hd_meta 1 (Some 30)) None)]"

section \<open>Properties\<close>

subsection \<open>Sequencing of fallible steps\<close>

lemma bindE_Inr_iff: "bindE m f = Inr y \<longleftrightarrow> (\<exists>a. m = Inr a \<and> f a = Inr y)"
  by (cases m) (simp_all add: bindE_def)

lemma bindE_Inr [simp]: "bindE (Inr a) f = f a"
  by (simp add: bindE_def)

lemma bindE_Inl [simp]: "bindE (Inl e) f = Inl e"
  by (simp add: bindE_def)

lemma upt_1_4: "[1..<4] = [1, 2, 3::nat]"
  by (simp add: upt_conv_Cons)

subsection \<open>Derived rates of a clip record\<close>

lemma build_record_bytes_per_second:
  "bytes_per_second (build_record name fsize md) =
     (if clip_duration md > 0 then of_int fsize / clip_duration md else 0)"
  by (simp add: build_record_def Let_def)

lemma build_record_bitrate:
  "bitrate (build_record name fsize md) =
     (if clip_duration md > 0 then of_int (fsize * 8) / clip_duration md else 0)"
  by (simp add: build_record_def Let_def)

text \<open>
  Claim C4, as amended. For every built record, \<open>bytes_per_second\<close> and \<open>bitrate\<close> are
  each zero exactly when the duration is not positive or the file size is zero: both are
  zero when the duration is zero, and both are non-zero when the duration and the file
  size are positive.
\<close>

theorem derived_rates_zero_iff:
  "(bytes_per_second (build_record name fsize md) = 0 \<longleftrightarrow> clip_duration md \<le> 0 \<or> fsize = 0) \<and>
   (bitrate (build_record name fsize md) = 0 \<longleftrightarrow> clip_duration md \<le> 0 \<or> fsize = 0)"
  by (auto simp: build_record_bytes_per_second build_record_bitrate)

text \<open>
  The theorem at a ten-second clip of 1000 bytes and at a clip of duration zero.
\<close>

theorem derived_rates_zero_iff_witness:
  "bytes_per_second (build_record ''a.mp4'' 1000
      \<lparr>clip_duration = 10, clip_fps = Some 30, clip_size = Some (1920, 1080), clip_audio = True\<rparr>) \<noteq> 0 \<and>
   bitrate (build_record ''a.mp4'' 1000
      \<lparr>clip_duration = 10, clip_fps = Some 30, clip_size = Some (1920, 1080), clip_audio = True\<rparr>) \<noteq> 0 \<and>
   bytes_per_second (build_record ''b.mp4'' 1000
      \<lparr>clip_duration = 0, clip_fps = Some 30, clip_size = Some (1920, 1080), clip_audio = True\<rparr>) = 0"
  using derived_rates_zero_iff [of "''a.mp4''" 1000
      "\<lparr>clip_duration = 10, clip_fps = Some 30, clip_size = Some (1920, 1080), clip_audio = True\<rparr>"]
    derived_rates_zero_iff [of "''b.mp4''" 1000
      "\<lparr>clip_duration = 0, clip_fps = Some 30, clip_size = Some (1920, 1080), clip_audio = True\<rparr>"]
  by simp

text \<open>
  Claim C4 as stated fails: a file of size zero with a positive duration has both rates
  zero although its duration is not zero.
\<close>

theorem empty_file_rates_zero:
  "bytes_per_second (build_record ''empty.mp4'' 0
      \<lparr>clip_duration = 10, clip_fps = Some 30, clip_size = Some (1920, 1080), clip_audio = True\<rparr>) = 0 \<and>
   bitrate (build_record ''empty.mp4'' 0
      \<lparr>clip_duration = 10, clip_fps = Some 30, clip_size = Some (1920, 1080), clip_audio = True\<rparr>) = 0 \<and>
   duration (build_record ''empty.mp4'' 0
      \<lparr>clip_duration = 10, clip_fps = Some 30, clip_size = Some (1920, 1080), clip_audio = True\<rparr>) = 10"
  by (simp add: build_record_def Let_def)

subsection \<open>The fence and the three classes\<close>

lemma filter_within_either_right:
  "(if filter (\<lambda>x. P x \<or> Q x) xs \<noteq> [] then filter Q (filter (\<lambda>x. P x \<or> Q x) xs) else [])
     = filter Q xs"
proof (cases "filter (\<lambda>x. P x \<or> Q x) xs = []")
  case True
  then have "filter Q xs = []" by (auto simp: filter_empty_conv)
  with True show ?thesis by simp
next
  case False
  have "filter Q (filter (\<lambda>x. P x \<or> Q x) xs) = filter Q xs"
    by (induction xs) auto
  with False show ?thesis by simp
qed

lemma filter_within_either_left:
  "(if filter (\<lambda>x. P x \<or> Q x) xs \<noteq> [] then filter P (filter (\<lambda>x. P x \<or> Q x) xs) else [])
     = filter P xs"
proof (cases "filter (\<lambda>x. P x \<or> Q x) xs = []")
  case True
  then have "filter P xs = []" by (auto simp: filter_empty_conv)
  with True show ?thesis by simp
next
  case False
  have "filter P (filter (\<lambda>x. P x \<or> Q x) xs) = filter P xs"
    by (induction xs) auto
  with False show ?thesis by simp
qed

lemma detect_outliers_Inr:
  assumes "detect_outliers single_ok cs = Inr d"
  obtains q1 q3 where "quartiles single_ok (map bytes_per_second cs) = Inr (q1, q3)"
    and "lower_bound d = q1 - 1.5 * (q3 - q1)"
    and "upper_bound d = q3 + 1.5 * (q3 - q1)"
    and "outliers d = filter (\<lambda>c. bytes_per_second c < lower_bound d \<or> bytes_per_second c > upper_bound d) cs"
    and "high_outliers d = filter (\<lambda>c. bytes_per_second c > upper_bound d) cs"
    and "low_outliers d = filter (\<lambda>c. bytes_per_second c < lower_bound d) cs"
proof -
  from assms obtain q where q: "quartiles single_ok (map bytes_per_second cs) = Inr q"
    by (auto simp: detect_outliers_def bindE_Inr_iff)
  obtain q1 q3 where q13: "q = (q1, q3)" by (cases q)
  define lb where "lb = q1 - 1.5 * (q3 - q1)"
  define ub where "ub = q3 + 1.5 * (q3 - q1)"
  define outs where "outs = filter (\<lambda>c. bytes_per_second c < lb \<or> bytes_per_second c > ub) cs"
  have "detect_outliers single_ok cs =
      Inr \<lparr> lower_bound = lb, upper_bound = ub, outliers = outs,
            high_outliers = (if outs \<noteq> [] then filter (\<lambda>c. bytes_per_second c > ub) outs else []),
            low_outliers = (if outs \<noteq> [] then filter (\<lambda>c. bytes_per_second c < lb) outs else []) \<rparr>"
    unfolding detect_outliers_def q q13 lb_def ub_def outs_def by (simp only: bindE_Inr prod.case Let_def)
  then have d: "d = \<lparr> lower_bound = lb, upper_bound = ub, outliers = outs,
            high_outliers = filter (\<lambda>c. bytes_per_second c > ub) cs,
            low_outliers = filter (\<lambda>c. bytes_per_second c < lb) cs \<rparr>"
    using assms unfolding outs_def filter_within_either_right filter_within_either_left by simp
  show ?thesis
    by (rule that[of q1 q3]) (simp_all add: q q13 d lb_def ub_def outs_def)
qed


lemma compare_normal_clips:
  assumes "compare_high_to_normal highs normals = Inr c"
  shows "normal_clips c = normals"
  using assms unfolding compare_high_to_normal_def Let_def bindE_Inr_iff
  by (elim exE conjE) (simp, auto)

lemma outlier_section_Inr:
  assumes "outlier_section single_ok cs = Inr r"
  shows "\<exists>d hs ls. detect_outliers single_ok cs = Inr d
    \<and> detected r = d\<lparr>high_outliers := hs, low_outliers := ls\<rparr>
    \<and> (outliers d = [] \<longrightarrow> hs = high_outliers d \<and> ls = low_outliers d \<and> comparisons r = [])
    \<and> (outliers d \<noteq> [] \<longrightarrow> list_outliers d = Inr (hs, ls))
    \<and> (outliers d \<noteq> [] \<and> hs = [] \<longrightarrow> comparisons r = [])
    \<and> (outliers d \<noteq> [] \<and> hs \<noteq> [] \<longrightarrow>
           (\<exists>c. compare_high_to_normal hs
                 (filter (\<lambda>c. lower_bound d \<le> bytes_per_second c
                            \<and> bytes_per_second c \<le> upper_bound d) cs) = Inr c
               \<and> comparisons r = [(HighOutlier, c)]))"
proof -
  from assms obtain d where d: "detect_outliers single_ok cs = Inr d"
    by (auto simp: outlier_section_def bindE_Inr_iff)
  show ?thesis
  proof (cases "outliers d = []")
    case True
    with assms d have "r = \<lparr> detected = d, comparisons = [] \<rparr>"
      by (simp add: outlier_section_def)
    with True d show ?thesis
      by (intro exI[of _ d] exI[of _ "high_outliers d"] exI[of _ "low_outliers d"]) simp
  next
    case False
    with assms d obtain hs ls where l: "list_outliers d = Inr (hs, ls)"
      by (auto simp: outlier_section_def bindE_Inr_iff)
    show ?thesis
    proof (cases "hs = []")
      case True
      with assms d False l have "r = \<lparr> detected = d\<lparr>high_outliers := hs, low_outliers := ls\<rparr>, comparisons = [] \<rparr>"
        by (simp add: outlier_section_def)
      with True False d l show ?thesis
        by (intro exI[of _ d] exI[of _ hs] exI[of _ ls]) simp
    next
      case hs: False
      with assms d False l obtain c where
        c: "compare_high_to_normal hs
                 (filter (\<lambda>c. lower_bound d \<le> bytes_per_second c
                            \<and> bytes_per_second c \<le> upper_bound d) cs) = Inr c"
        and r: "r = \<lparr> detected = d\<lparr>high_outliers := hs, low_outliers := ls\<rparr>, comparisons = [(HighOutlier, c)] \<rparr>"
        by (auto simp: outlier_section_def bindE_Inr_iff)
      with hs False d l show ?thesis
        by (intro exI[of _ d] exI[of _ hs] exI[of _ ls]) simp
    qed
  qed
qed

text \<open>
  Claim C1. Whenever the detection returns, the bounds are \<open>Q1 - 1.5 (Q3 - Q1)\<close> and
  \<open>Q3 + 1.5 (Q3 - Q1)\<close> for the quartiles of the full \<open>bytes_per_second\<close> sample; the low
  outliers are exactly the records strictly below the lower bound, the high outliers
  exactly those strictly above the upper bound, the outliers the records in either, and
  the normal clips of the comparison exactly the records in neither, a value equal to a
  bound included.
\<close>

theorem iqr_fence_classification:
  assumes "detect_outliers single_ok cs = Inr d"
  shows "(\<exists>q1 q3. quartiles single_ok (map bytes_per_second cs) = Inr (q1, q3)
            \<and> lower_bound d = q1 - 1.5 * (q3 - q1)
            \<and> upper_bound d = q3 + 1.5 * (q3 - q1))
       \<and> low_outliers d = filter (\<lambda>c. bytes_per_second c < lower_bound d) cs
       \<and> high_outliers d = filter (\<lambda>c. bytes_per_second c > upper_bound d) cs
       \<and> outliers d = filter (\<lambda>c. bytes_per_second c < lower_bound d
                                  \<or> bytes_per_second c > upper_bound d) cs
       \<and> (\<forall>r cmp. outlier_section single_ok cs = Inr r \<and> (HighOutlier, cmp) \<in> set (comparisons r)
            \<longrightarrow> normal_clips cmp =
                  filter (\<lambda>c. \<not> bytes_per_second c < lower_bound d
                            \<and> \<not> bytes_per_second c > upper_bound d) cs)"
proof -
  have normal: "normal_clips cmp =
                  filter (\<lambda>c. \<not> bytes_per_second c < lower_bound d
                            \<and> \<not> bytes_per_second c > upper_bound d) cs"
    if r: "outlier_section single_ok cs = Inr r" and m: "(HighOutlier, cmp) \<in> set (comparisons r)"
    for r cmp
  proof -
    from outlier_section_Inr[OF r] assms obtain hs ls where
          e: "outliers d = [] \<longrightarrow> hs = high_outliers d \<and> ls = low_outliers d \<and> comparisons r = []"
      and n: "outliers d \<noteq> [] \<and> hs = [] \<longrightarrow> comparisons r = []"
      and c: "outliers d \<noteq> [] \<and> hs \<noteq> [] \<longrightarrow>
           (\<exists>c. compare_high_to_normal hs
                 (filter (\<lambda>c. lower_bound d \<le> bytes_per_second c
                            \<and> bytes_per_second c \<le> upper_bound d) cs) = Inr c
               \<and> comparisons r = [(HighOutlier, c)])"
      by auto
    from m e n have "outliers d \<noteq> [] \<and> hs \<noteq> []" by auto
    with c m have "compare_high_to_normal hs
                 (filter (\<lambda>c. lower_bound d \<le> bytes_per_second c
                            \<and> bytes_per_second c \<le> upper_bound d) cs) = Inr cmp"
      by auto
    from compare_normal_clips[OF this] show ?thesis
      by (simp add: not_less)
  qed
  from assms show ?thesis
    by (elim detect_outliers_Inr) (use normal in blast)
qed

lemma bytes_per_second_example_clip [simp]: "bytes_per_second (example_clip b) = of_int b"
  by (simp add: example_clip_def hd_meta_def build_record_bytes_per_second)

lemma fence_sample_rates:
  "map bytes_per_second fence_sample = [-25, 10, 10, 20, 20, 20, 20, 20, 30, 45, 65]"
  by (simp add: fence_sample_def)

lemma fence_sample_quartiles: "quartiles single_ok (map bytes_per_second fence_sample) = Inr (10, 30)"
  unfolding fence_sample_rates
  by (simp add: quartiles_def quantiles_def upt_1_4 py_index_def exclusive_cut_def)

subsection \<open>The quartile rule\<close>

lemma quantiles_exclusive_4:
  assumes "2 \<le> length xs"
  shows "quantiles single_ok xs 4 Exclusive = Inr [exclusive_cut (sort xs) 4 1, exclusive_cut (sort xs) 4 2, exclusive_cut (sort xs) 4 3]"
proof -
  have "quantiles single_ok xs 4 Exclusive = Inr (map (exclusive_cut (sort xs) 4) [1..<4])"
    using assms by (simp add: quantiles_def Let_def)
  then show ?thesis by (simp only: upt_1_4 list.map)
qed

lemma quartiles_exclusive_cut:
  assumes "2 \<le> length xs"
  shows "quartiles single_ok xs = Inr (exclusive_cut (sort xs) 4 1, exclusive_cut (sort xs) 4 3)"
  by (simp add: quartiles_def quantiles_exclusive_4[OF assms] py_index_def)

lemma exclusive_cut_rank:
  assumes "2 \<le> length xs"
  shows "exclusive_cut (sort xs) 4 k = exclusive_quartile k xs"
proof -
  define ld where "ld = length xs"
  define j0 where "j0 = (k * (ld + 1)) div 4"
  define j where "j = min (max 1 j0) (ld - 1)"
  have fl: "nat \<lfloor>real k * real (ld + 1) / 4\<rfloor> = j0"
  proof -
    have "real k * real (ld + 1) / 4 = real (k * (ld + 1)) / real 4"
      by (simp only: of_nat_mult of_nat_numeral)
    then show ?thesis unfolding j0_def by (simp only: floor_divide_of_nat_eq nat_int)
  qed
  have cl: "(if j0 < 1 then 1 else if j0 > ld - 1 then ld - 1 else j0) = j"
    using assms unfolding j_def ld_def by auto
  have "exclusive_cut (sort xs) 4 k =
      (sort xs ! (j - 1) * of_int (4 - (int (k * (ld + 1)) - int (j * 4)))
       + sort xs ! j * of_int (int (k * (ld + 1)) - int (j * 4))) / 4"
    unfolding exclusive_cut_def Let_def length_sort ld_def[symmetric] j0_def[symmetric] cl by simp
  also have "\<dots> = sort xs ! (j - 1)
       + (real k * real (ld + 1) / 4 - real j) * (sort xs ! j - sort xs ! (j - 1))"
    by (simp add: field_simps)
  also have "\<dots> = exclusive_quartile k xs"
    unfolding exclusive_quartile_def Let_def ld_def[symmetric] fl j_def by simp
  finally show ?thesis .
qed

text \<open>
  Claim C2, as amended. On every sample of at least two values, \<open>Q1\<close> and \<open>Q3\<close> are the
  first and third quartile of the exclusive rule: linear interpolation between the
  order statistics around the rank \<open>k (n + 1) / 4\<close>, which does not take the minimum and
  the maximum as the 0th and 4th quartile.
\<close>

theorem quartiles_are_exclusive:
  assumes "2 \<le> length xs"
  shows "quartiles single_ok xs = Inr (exclusive_quartile 1 xs, exclusive_quartile 3 xs)"
  using quartiles_exclusive_cut[OF assms] exclusive_cut_rank[OF assms] by simp



text \<open>
  Claim C2 as stated fails: on the sample 1, 2, 3, 4 the function computes \<open>Q1 = 5/4\<close> and
  \<open>Q3 = 15/4\<close>, the inclusive rule gives \<open>7/4\<close> and \<open>13/4\<close>.
\<close>

theorem inclusive_rule_differs:
  "quartiles False [1, 2, 3, 4] = Inr (5 / 4, 15 / 4)
   \<and> quartiles True [1, 2, 3, 4] = Inr (5 / 4, 15 / 4)
   \<and> inclusive_quartile 1 [1, 2, 3, 4] = 7 / 4
   \<and> inclusive_quartile 3 [1, 2, 3, 4] = 13 / 4"
  by (simp add: quartiles_def quantiles_def upt_1_4 py_index_def exclusive_cut_def
      inclusive_quartile_def)

text \<open>
  The theorem on the sample 1, 2, 3, 4.
\<close>

theorem quartiles_are_exclusive_witness:
  "quartiles False [1, 2, 3, 4] = Inr (exclusive_quartile 1 [1, 2, 3, 4], exclusive_quartile 3 [1, 2, 3, 4])
   \<and> exclusive_quartile 1 [1, 2, 3, 4] = 5 / 4 \<and> exclusive_quartile 3 [1, 2, 3, 4] = 15 / 4"
  using quartiles_are_exclusive [of "[1, 2, 3, 4]" False]
  by (simp add: exclusive_quartile_def)

lemma quantiles_inclusive_rank:
  assumes "2 \<le> length xs"
  shows "quantiles single_ok xs 4 Inclusive =
           Inr [inclusive_quartile 1 xs, inclusive_quartile 2 xs, inclusive_quartile 3 xs]"
proof -
  have cut: "inclusive_cut (sort xs) 4 k = inclusive_quartile k xs" if "k < 4" for k
  proof -
    define m where "m = length xs - 1"
    define j where "j = (k * m) div 4"
    have fl: "nat \<lfloor>real k * real m / 4\<rfloor> = j"
    proof -
      have "real k * real m / 4 = real (k * m) / real 4"
        by (simp only: of_nat_mult of_nat_numeral)
      then show ?thesis unfolding j_def by (simp only: floor_divide_of_nat_eq nat_int)
    qed
    have "k * m < m * 4" using that assms by (simp add: m_def)
    then have "j < m" unfolding j_def by (rule less_mult_imp_div_less)
    then have lt: "j + 1 < length (sort xs)" by (simp add: m_def)
    have md: "real ((k * m) mod 4) = real k * real m - 4 * real j"
    proof -
      have "k * m = 4 * j + (k * m) mod 4" unfolding j_def by simp
      then have "real (k * m) = real (4 * j + (k * m) mod 4)" by simp
      then show ?thesis by (simp only: of_nat_add of_nat_mult of_nat_numeral)
    qed
    have le: "(k * m) mod 4 \<le> 4" by simp
    have "inclusive_cut (sort xs) 4 k =
        (sort xs ! j * real (4 - (k * m) mod 4) + sort xs ! (j + 1) * real ((k * m) mod 4)) / 4"
      unfolding inclusive_cut_def Let_def length_sort m_def[symmetric] j_def[symmetric] by simp
    also have "\<dots> = sort xs ! j + (real k * real m / 4 - real j) * (sort xs ! (j + 1) - sort xs ! j)"
      unfolding of_nat_diff[OF le] md by (simp add: field_simps)
    also have "\<dots> = inclusive_quartile k xs"
      unfolding inclusive_quartile_def Let_def m_def[symmetric] fl using lt by simp
    finally show ?thesis .
  qed
  have "quantiles single_ok xs 4 Inclusive = Inr (map (inclusive_cut (sort xs) 4) [1..<4])"
    using assms by (simp add: quantiles_def Let_def)
  then show ?thesis by (simp only: upt_1_4 list.map) (simp add: cut)
qed

text \<open>The indices read by the two loop bodies lie within the sorted sample.\<close>

lemma quantile_indices_in_range:
  assumes "2 \<le> ld"
  shows "(if j0 < 1 then 1 else if j0 > ld - 1 then ld - 1 else j0) - 1 < (ld::nat)"
    and "(if j0 < 1 then 1 else if j0 > ld - 1 then ld - 1 else j0) < ld"
    and "i < n \<Longrightarrow> (i * (ld - 1)) div n + 1 < ld"
proof -
  show "(if j0 < 1 then 1 else if j0 > ld - 1 then ld - 1 else j0) - 1 < ld"
    and "(if j0 < 1 then 1 else if j0 > ld - 1 then ld - 1 else j0) < ld"
    using assms by auto
  assume "i < n"
  then have "i * (ld - 1) < (ld - 1) * n" using assms by simp
  then have "(i * (ld - 1)) div n < ld - 1" by (rule less_mult_imp_div_less)
  then show "(i * (ld - 1)) div n + 1 < ld" by simp
qed

subsection \<open>Samples of fewer than four records\<close>

lemma exclusive_cut_of_two:
  assumes "length s = 2"
  shows "exclusive_cut s 4 1 = (s ! 0 * 5 + s ! 1 * (-1)) / 4"
    and "exclusive_cut s 4 3 = (s ! 0 * (-1) + s ! 1 * 5) / 4"
  using assms by (simp_all add: exclusive_cut_def)

lemma exclusive_cut_of_three:
  assumes "length s = 3"
  shows "exclusive_cut s 4 1 = (s ! 0 * 4 + s ! 1 * 0) / 4"
    and "exclusive_cut s 4 3 = (s ! 1 * 0 + s ! 2 * 4) / 4"
  using assms by (simp_all add: exclusive_cut_def)

lemma detect_outliers_returns:
  assumes "quartiles single_ok (map bytes_per_second cs) = Inr (q1, q3)"
  shows "\<exists>d. detect_outliers single_ok cs = Inr d
           \<and> lower_bound d = q1 - 1.5 * (q3 - q1)
           \<and> upper_bound d = q3 + 1.5 * (q3 - q1)
           \<and> outliers d = filter (\<lambda>c. bytes_per_second c < lower_bound d
                                      \<or> bytes_per_second c > upper_bound d) cs"
proof -
  obtain d where d: "detect_outliers single_ok cs = Inr d"
    unfolding detect_outliers_def assms by (simp add: Let_def)
  from d obtain q1' q3' where "quartiles single_ok (map bytes_per_second cs) = Inr (q1', q3')"
    and "lower_bound d = q1' - 1.5 * (q3' - q1')"
    and "upper_bound d = q3' + 1.5 * (q3' - q1')"
    and "outliers d = filter (\<lambda>c. bytes_per_second c < lower_bound d
                                \<or> bytes_per_second c > upper_bound d) cs"
    by (rule detect_outliers_Inr)
  with assms d show ?thesis by auto
qed

text \<open>
  Claim C3, as amended. On two or three records the detection does not fail and gives no
  diagnostic: \<^verbatim>\<open>statistics.quantiles\<close> returns the cut points of its exclusive rule with
  the index clamped to the outermost pair of the sorted sample (for two records
  \<open>(s\<^sub>0 * 5 + s\<^sub>1 * (-1)) / 4\<close> and \<open>(s\<^sub>0 * (-1) + s\<^sub>1 * 5) / 4\<close>, for three records
  \<open>(s\<^sub>0 * 4 + s\<^sub>1 * 0) / 4\<close> and \<open>(s\<^sub>1 * 0 + s\<^sub>2 * 4) / 4\<close>), and the detection returns the
  bounds \<open>Q1 - 1.5 (Q3 - Q1)\<close> and \<open>Q3 + 1.5 (Q3 - Q1)\<close> of these values, with the outliers
  read off those bounds.
\<close>

theorem small_sample_fence:
  assumes "length cs = 2 \<or> length cs = 3"
  shows "let s = sort (map bytes_per_second cs);
             q1 = (if length cs = 2 then (s ! 0 * 5 + s ! 1 * (-1)) / 4
                   else (s ! 0 * 4 + s ! 1 * 0) / 4);
             q3 = (if length cs = 2 then (s ! 0 * (-1) + s ! 1 * 5) / 4
                   else (s ! 1 * 0 + s ! 2 * 4) / 4)
         in quartiles single_ok (map bytes_per_second cs) = Inr (q1, q3)
            \<and> (\<exists>d. detect_outliers single_ok cs = Inr d
                  \<and> lower_bound d = q1 - 1.5 * (q3 - q1)
                  \<and> upper_bound d = q3 + 1.5 * (q3 - q1)
                  \<and> outliers d = filter (\<lambda>c. bytes_per_second c < lower_bound d
                                             \<or> bytes_per_second c > upper_bound d) cs)"
proof -
  define s where "s = sort (map bytes_per_second cs)"
  define q1 where "q1 = (if length cs = 2 then (s ! 0 * 5 + s ! 1 * (-1)) / 4
                   else (s ! 0 * 4 + s ! 1 * 0) / 4)"
  define q3 where "q3 = (if length cs = 2 then (s ! 0 * (-1) + s ! 1 * 5) / 4
                   else (s ! 1 * 0 + s ! 2 * 4) / 4)"
  have ls: "length s = length cs" by (simp add: s_def)
  have two: "2 \<le> length (map bytes_per_second cs)" using assms by auto
  have "exclusive_cut s 4 1 = q1 \<and> exclusive_cut s 4 3 = q3"
  proof (cases "length cs = 2")
    case True
    then have "length s = 2" by (simp add: ls)
    from exclusive_cut_of_two[OF this] True show ?thesis
      unfolding q1_def q3_def by (simp only: if_True simp_thms)
  next
    case False
    with assms have "length s = 3" by (simp add: ls)
    from exclusive_cut_of_three[OF this] False show ?thesis
      unfolding q1_def q3_def by (simp only: if_False simp_thms)
  qed
  with quartiles_exclusive_cut[OF two, of single_ok]
  have q: "quartiles single_ok (map bytes_per_second cs) = Inr (q1, q3)"
    by (simp only: s_def[symmetric])
  from q detect_outliers_returns[OF q] show ?thesis
    unfolding Let_def s_def[symmetric] q1_def[symmetric] q3_def[symmetric] by (rule conjI)
qed

text \<open>
  Claim C3 as stated fails: on three records the detection returns bounds and no
  diagnostic.
\<close>

theorem three_records_fenced:
  "detect_outliers False [example_clip 1, example_clip 2, example_clip 3] =
     Inr \<lparr> lower_bound = -2, upper_bound = 6, outliers = [], high_outliers = [],
           low_outliers = [] \<rparr>
   \<and> detect_outliers True [example_clip 1, example_clip 2, example_clip 3] =
     Inr \<lparr> lower_bound = -2, upper_bound = 6, outliers = [], high_outliers = [],
           low_outliers = [] \<rparr>"
proof -
  have "quartiles single_ok (map bytes_per_second [example_clip 1, example_clip 2, example_clip 3])
          = Inr (1, 3)" for single_ok
    by (simp add: quartiles_def quantiles_def upt_1_4 py_index_def exclusive_cut_def)
  then show ?thesis
    unfolding detect_outliers_def by (simp add: Let_def)
qed

text \<open>
  The theorem on a sample of two and on a sample of three records.
\<close>

theorem small_sample_fence_witness:
  "quartiles False (map bytes_per_second [example_clip 1, example_clip 5]) = Inr (0, 6)
   \<and> (\<exists>d. detect_outliers False [example_clip 1, example_clip 5] = Inr d
         \<and> lower_bound d = -9 \<and> upper_bound d = 15 \<and> outliers d = [])
   \<and> quartiles True (map bytes_per_second [example_clip 4, example_clip 2, example_clip 3])
        = Inr (2, 4)
   \<and> (\<exists>d. detect_outliers True [example_clip 4, example_clip 2, example_clip 3] = Inr d
         \<and> lower_bound d = -1 \<and> upper_bound d = 7 \<and> outliers d = [])"
proof -
  have s: "sort (map bytes_per_second [example_clip 1, example_clip 5]) = [1, 5]"
    "sort (map bytes_per_second [example_clip 4, example_clip 2, example_clip 3]) = [2, 3, 4]"
    by simp_all
  from small_sample_fence [of "[example_clip 1, example_clip 5]" False]
  have a: "quartiles False (map bytes_per_second [example_clip 1, example_clip 5]) = Inr (0, 6)
     \<and> (\<exists>d. detect_outliers False [example_clip 1, example_clip 5] = Inr d
         \<and> lower_bound d = -9 \<and> upper_bound d = 15 \<and> outliers d = [])"
    unfolding Let_def s by auto
  from small_sample_fence [of "[example_clip 4, example_clip 2, example_clip 3]" True]
  have b: "quartiles True (map bytes_per_second [example_clip 4, example_clip 2, example_clip 3])
        = Inr (2, 4)
     \<and> (\<exists>d. detect_outliers True [example_clip 4, example_clip 2, example_clip 3] = Inr d
         \<and> lower_bound d = -1 \<and> upper_bound d = 7 \<and> outliers d = [])"
    unfolding Let_def s by auto
  from a b show ?thesis by (simp only: simp_thms)
qed

subsection \<open>Grouping is a partition\<close>

lemma keys_group_add:
  "map fst (group_add k v g) = (if k \<in> set (map fst g) then map fst g else map fst g @ [k])"
  by (induction g) (force split: if_splits)+

lemma distinct_group_add:
  "distinct (map fst g) \<Longrightarrow> distinct (map fst (group_add k v g))"
  by (simp add: keys_group_add)

lemma map_of_group_add:
  "map_of (group_add k v g) =
     (map_of g)(k \<mapsto> (case map_of g k of None \<Rightarrow> [v] | Some ws \<Rightarrow> ws @ [v]))"
  by (induction g) (auto simp: fun_eq_iff)

lemma counts_group_add:
  "sum_list (map (\<lambda>g. length (snd g)) (group_add k v g)) = Suc (sum_list (map (\<lambda>g. length (snd g)) g))"
  by (induction g) auto

lemma group_by_snoc:
  "group_by key (cs @ [c]) = group_add (key c) (bytes_per_second c) (group_by key cs)"
  by (simp add: group_by_def)

lemma group_by_Nil: "group_by key [] = []"
  by (simp add: group_by_def)

lemma distinct_group_by: "distinct (map fst (group_by key cs))"
  by (induction cs rule: rev_induct) (simp_all add: group_by_Nil group_by_snoc distinct_group_add)

lemma keys_group_by: "set (map fst (group_by key cs)) = key ` set cs"
  by (induction cs rule: rev_induct) (auto simp: group_by_Nil group_by_snoc keys_group_add)

lemma filter_key_absent:
  "k \<notin> key ` set cs \<Longrightarrow> filter (\<lambda>c. key c = k) cs = []"
  by (induction cs) auto

lemma map_of_group_by:
  "map_of (group_by key cs) k =
     (if k \<in> key ` set cs then Some (map bytes_per_second (filter (\<lambda>c. key c = k) cs)) else None)"
proof (induction cs rule: rev_induct)
  case Nil
  then show ?case by (simp add: group_by_Nil)
next
  case (snoc c cs)
  show ?case
  proof (cases "k = key c")
    case False
    then have "(k \<in> key ` set (cs @ [c])) = (k \<in> key ` set cs)"
      "filter (\<lambda>x. key x = k) (cs @ [c]) = filter (\<lambda>x. key x = k) cs"
      by auto
    with False snoc show ?thesis
      by (simp add: group_by_snoc map_of_group_add del: set_append filter_append)
  next
    case True
    have in': "k \<in> key ` set (cs @ [c])" using True by simp
    have fl: "filter (\<lambda>x. key x = k) (cs @ [c]) = filter (\<lambda>x. key x = k) cs @ [c]"
      using True by simp
    show ?thesis
    proof (cases "k \<in> key ` set cs")
      case old: True
      with snoc have "map_of (group_by key cs) (key c)
          = Some (map bytes_per_second (filter (\<lambda>x. key x = k) cs))"
        using True by simp
      then show ?thesis
        unfolding group_by_snoc map_of_group_add using in' fl True by simp
    next
      case new: False
      with snoc have "map_of (group_by key cs) (key c) = None"
        using True by simp
      then show ?thesis
        unfolding group_by_snoc map_of_group_add using in' fl True new
        by (simp add: filter_key_absent)
    qed
  qed
qed

lemma group_by_member:
  "(k, vs) \<in> set (group_by key cs) \<longleftrightarrow>
     k \<in> key ` set cs \<and> vs = map bytes_per_second (filter (\<lambda>c. key c = k) cs)"
proof -
  have "(k, vs) \<in> set (group_by key cs) \<longleftrightarrow> map_of (group_by key cs) k = Some vs"
    by (simp add: distinct_group_by)
  then show ?thesis by (auto simp: map_of_group_by)
qed

lemma counts_group_by:
  "sum_list (map (\<lambda>g. length (snd g)) (group_by key cs)) = length cs"
  by (induction cs rule: rev_induct) (simp_all add: group_by_Nil group_by_snoc counts_group_add)

lemma first_seen_less: "k \<in> key ` set cs \<Longrightarrow> first_seen key cs k < length cs"
  unfolding first_seen_def by (induction cs) auto

lemma first_seen_append_old:
  "k \<in> key ` set cs \<Longrightarrow> first_seen key (cs @ ds) k = first_seen key cs k"
  unfolding first_seen_def by (induction cs) auto

lemma first_seen_new:
  "key c \<notin> key ` set cs \<Longrightarrow> first_seen key (cs @ [c]) (key c) = length cs"
  unfolding first_seen_def by (induction cs) auto

lemma first_seen_order_group_by:
  "sorted_wrt (\<lambda>a b. first_seen key cs a < first_seen key cs b) (map fst (group_by key cs))"
proof (induction cs rule: rev_induct)
  case Nil
  then show ?case by (simp add: group_by_Nil)
next
  case (snoc c cs)
  have old: "sorted_wrt (\<lambda>a b. first_seen key (cs @ [c]) a < first_seen key (cs @ [c]) b)
               (map fst (group_by key cs))"
  proof (rule sorted_wrt_mono_rel[OF _ snoc.IH])
    fix a b
    assume "a \<in> set (map fst (group_by key cs))" "b \<in> set (map fst (group_by key cs))"
      and "first_seen key cs a < first_seen key cs b"
    then show "first_seen key (cs @ [c]) a < first_seen key (cs @ [c]) b"
      by (simp add: keys_group_by first_seen_append_old del: set_map)
  qed
  show ?case
  proof (cases "key c \<in> key ` set cs")
    case True
    with old show ?thesis
      by (simp add: group_by_snoc keys_group_add keys_group_by del: set_map)
  next
    case False
    have "first_seen key (cs @ [c]) a < first_seen key (cs @ [c]) (key c)"
      if "a \<in> set (map fst (group_by key cs))" for a
      using that False
      by (simp add: keys_group_by first_seen_append_old first_seen_new first_seen_less del: set_map)
    with old False show ?thesis
      by (simp add: group_by_snoc keys_group_add keys_group_by sorted_wrt_append del: set_map)
  qed
qed

lemma clip_of_fields [simp]:
  "bytes_per_second (clip_of res f b) = of_int b"
  "resolution (clip_of (w, h) f b) = str_of_int w @ ''x'' @ str_of_int h"
  "fps (clip_of res f b) = f"
  "has_audio (clip_of res f b) = True"
  by (simp_all add: clip_of_def build_record_def Let_def)

lemma sample_resolutions:
  "str_of_int 1280 = ''1280''" "str_of_int 720 = ''720''" "str_of_int 1920 = ''1920''"
  "str_of_int 1080 = ''1080''" "str_of_int 640 = ''640''" "str_of_int 480 = ''480''"
  by code_simp+

lemma sample_rates:
  "py_round (2997 / 100) = 30" "py_round 30 = 30" "py_round 60 = 60" "py_round (2997 / 50) = 60"
  "py_round 24 = 24"
proof -
  have fl: "\<lfloor>2997 / 100 :: real\<rfloor> = 29" "\<lfloor>2997 / 50 :: real\<rfloor> = 59"
    by (simp_all add: floor_eq_iff)
  show "py_round (2997 / 100) = 30" "py_round (2997 / 50) = 60"
    unfolding py_round_def Let_def fl by simp_all
  show "py_round 30 = 30" "py_round 60 = 60" "py_round 24 = 24"
    by (simp_all add: py_round_def Let_def)
qed

lemma mixed_sample_resolutions: "map resolution mixed_sample = [''1280x720'', ''1920x1080'', ''1280x720'', ''1920x1080'', ''640x480'', ''1280x720'', ''1920x1080'', ''640x480'', ''640x480'', ''1920x1080'']"
  by (simp add: mixed_sample_def sample_resolutions)

lemma mixed_sample_rates: "map fps_rounded mixed_sample = [30, 60, 30, 60, 0, 30, 60, 0, 0, 24]"
  by (simp add: mixed_sample_def fps_rounded_def truthy_def sample_rates)



text \<open>
  Claim C9. In the grouping by resolution and in the grouping by rounded frame rate
  (the key 0 of clips without a usable frame rate included) the keys are distinct, the
  group of a key exists exactly when a record has that key and holds the
  \<open>bytes_per_second\<close> values of exactly the records with that key, in their order, and the
  sample counts of all groups add up to the number of records. The two audio lists hold
  the values of the records with and without audio, and their lengths add up to the
  number of records.
\<close>

theorem grouping_is_partition:
  "distinct (map fst (res_groups cs))
   \<and> ((k, vs) \<in> set (res_groups cs)
        \<longleftrightarrow> k \<in> resolution ` set cs
            \<and> vs = map bytes_per_second (filter (\<lambda>c. resolution c = k) cs))
   \<and> sum_list (map (\<lambda>g. length (snd g)) (res_groups cs)) = length cs
   \<and> distinct (map fst (fps_groups cs))
   \<and> ((k', vs') \<in> set (fps_groups cs)
        \<longleftrightarrow> k' \<in> fps_rounded ` set cs
            \<and> vs' = map bytes_per_second (filter (\<lambda>c. fps_rounded c = k') cs))
   \<and> sum_list (map (\<lambda>g. length (snd g)) (fps_groups cs)) = length cs
   \<and> fst (audio_groups cs) = map bytes_per_second (filter has_audio cs)
   \<and> snd (audio_groups cs) = map bytes_per_second (filter (\<lambda>c. \<not> has_audio c) cs)
   \<and> length (fst (audio_groups cs)) + length (snd (audio_groups cs)) = length cs"
proof -
  have "length (fst (audio_groups cs)) + length (snd (audio_groups cs)) = length cs"
    by (simp add: audio_groups_def sum_length_filter_compl)
  then show ?thesis
    unfolding res_groups_def fps_groups_def
    by (simp only: distinct_group_by group_by_member counts_group_by simp_thms)
       (simp add: audio_groups_def)
qed

text \<open>
  The theorem on the ten clips of \<open>mixed_sample\<close>.
\<close>

theorem grouping_is_partition_witness:
  "(''640x480'', [50, 5, 6]) \<in> set (res_groups mixed_sample)
   \<and> sum_list (map (\<lambda>g. length (snd g)) (res_groups mixed_sample)) = 10
   \<and> (60, [20, 40, 70]) \<in> set (fps_groups mixed_sample)
   \<and> sum_list (map (\<lambda>g. length (snd g)) (fps_groups mixed_sample)) = 10
   \<and> length (fst (audio_groups mixed_sample)) + length (snd (audio_groups mixed_sample)) = 10"
proof -
  have r: "filter (\<lambda>c. resolution c = ''640x480'') mixed_sample
             = [clip_of (640, 480) None 50, clip_of (640, 480) None 5, clip_of (640, 480) (Some 0) 6]"
    by (simp add: mixed_sample_def sample_resolutions)
  have f: "filter (\<lambda>c. fps_rounded c = 60) mixed_sample
             = [clip_of (1920, 1080) (Some 60) 20, clip_of (1920, 1080) (Some 59.94) 40,
                clip_of (1920, 1080) (Some 60) 70]"
    by (simp add: mixed_sample_def fps_rounded_def truthy_def sample_rates)
  have k: "''640x480'' \<in> resolution ` set mixed_sample" "60 \<in> fps_rounded ` set mixed_sample"
    using mixed_sample_resolutions mixed_sample_rates by (simp_all flip: set_map)
  have l: "length mixed_sample = 10" by (simp add: mixed_sample_def)
  from grouping_is_partition [of mixed_sample "''640x480''" "[50, 5, 6]" 60 "[20, 40, 70]"]
  show ?thesis
    by (simp add: r f k l sum_length_filter_compl)
qed

subsection \<open>The groups shown and their order\<close>

lemma insort_key_keeps_order:
  assumes "sorted_wrt (\<lambda>a b. f a < f b \<or> (f a = f b \<and> P a b)) ys"
    and "\<forall>y \<in> set ys. P x y"
  shows "sorted_wrt (\<lambda>a b. f a < f b \<or> (f a = f b \<and> P a b)) (insort_key f x ys)"
  using assms
proof (induction ys)
  case Nil
  then show ?case by simp
next
  case (Cons y ys)
  show ?case
  proof (cases "f x \<le> f y")
    case True
    have "f x < f z \<or> (f x = f z \<and> P x z)" if "z \<in> set (y # ys)" for z
    proof -
      have "f y \<le> f z" using Cons.prems(1) that by auto
      with True have "f x \<le> f z" by simp
      moreover have "P x z" using Cons.prems(2) that by auto
      ultimately show ?thesis by auto
    qed
    with True Cons.prems(1) show ?thesis by simp
  next
    case False
    have "sorted_wrt (\<lambda>a b. f a < f b \<or> (f a = f b \<and> P a b)) (insort_key f x ys)"
      using Cons by simp
    moreover have "f y < f z \<or> (f y = f z \<and> P y z)" if "z \<in> set (insort_key f x ys)" for z
      using that False Cons.prems(1) by (auto simp: set_insort_key)
    ultimately show ?thesis using False by simp
  qed
qed

lemma sort_key_keeps_order:
  assumes "sorted_wrt P xs"
  shows "sorted_wrt (\<lambda>a b. f a < f b \<or> (f a = f b \<and> P a b)) (sort_key f xs)"
  using assms
proof (induction xs)
  case Nil
  then show ?case by simp
next
  case (Cons x xs)
  then have "sorted_wrt (\<lambda>a b. f a < f b \<or> (f a = f b \<and> P a b)) (sort_key f xs)"
    and "\<forall>y \<in> set (sort_key f xs). P x y"
    by simp_all
  then show ?case
    by (simp add: insort_key_keeps_order)
qed

lemma sorted_desc_keeps_order:
  fixes key :: "'a \<Rightarrow> int"
  assumes "sorted_wrt P xs"
  shows "sorted_wrt (\<lambda>a b. key a > key b \<or> (key a = key b \<and> P a b)) (sorted_desc key xs)"
proof -
  have "sorted_wrt (\<lambda>a b. - key a < - key b \<or> (- key a = - key b \<and> P a b))
          (sort_key (\<lambda>x. - key x) xs)"
    using assms by (rule sort_key_keeps_order)
  then show ?thesis by (simp add: sorted_desc_def)
qed

lemma set_sorted_desc [simp]: "set (sorted_desc key xs) = set xs"
  by (simp add: sorted_desc_def)

lemma shown_groups_member:
  "(k, m, n) \<in> set (map group_line (filter (\<lambda>g. length (snd g) \<ge> 3 \<and> ok (fst g))
        (sorted_desc (\<lambda>g. int (length (snd g))) (group_by key cs))))
   \<longleftrightarrow> k \<in> key ` set cs \<and> ok k
       \<and> n = length (filter (\<lambda>c. key c = k) cs) \<and> 3 \<le> n
       \<and> m = sum_list (map bytes_per_second (filter (\<lambda>c. key c = k) cs)) / real n"
  by (auto simp: group_line_def group_by_member image_iff)

lemma shown_groups_order:
  "sorted_wrt (\<lambda>a b. snd (snd a) > snd (snd b)
                  \<or> (snd (snd a) = snd (snd b)
                      \<and> first_seen key cs (fst a) < first_seen key cs (fst b)))
     (map group_line (filter (\<lambda>g. length (snd g) \<ge> 3 \<and> ok (fst g))
        (sorted_desc (\<lambda>g. int (length (snd g))) (group_by key cs))))"
proof -
  have "sorted_wrt (\<lambda>a b. first_seen key cs (fst a) < first_seen key cs (fst b)) (group_by key cs)"
    using first_seen_order_group_by[of key cs] by (simp add: sorted_wrt_map)
  then have "sorted_wrt (\<lambda>a b. int (length (snd a)) > int (length (snd b))
                  \<or> (int (length (snd a)) = int (length (snd b))
                      \<and> first_seen key cs (fst a) < first_seen key cs (fst b)))
     (sorted_desc (\<lambda>g. int (length (snd g))) (group_by key cs))"
    by (rule sorted_desc_keeps_order)
  then have "sorted_wrt (\<lambda>a b. int (length (snd a)) > int (length (snd b))
                  \<or> (int (length (snd a)) = int (length (snd b))
                      \<and> first_seen key cs (fst a) < first_seen key cs (fst b)))
     (filter (\<lambda>g. length (snd g) \<ge> 3 \<and> ok (fst g))
        (sorted_desc (\<lambda>g. int (length (snd g))) (group_by key cs)))"
    by (rule sorted_wrt_filter)
  then show ?thesis
    by (simp add: sorted_wrt_map group_line_def)
qed

text \<open>
  Claim C8. A line is printed for a resolution exactly when its group has at least three
  samples, and for a rounded frame rate exactly when its group has at least three samples
  and the rate is positive, which leaves out the key 0 of clips without a usable frame
  rate. In both listings the lines are in descending order of sample count, and lines of
  equal count are in the order in which their keys were first met.
\<close>

theorem emitted_groups:
  "((k, m, n) \<in> set (res_emitted cs)
      \<longleftrightarrow> k \<in> resolution ` set cs
          \<and> n = length (filter (\<lambda>c. resolution c = k) cs) \<and> 3 \<le> n
          \<and> m = sum_list (map bytes_per_second (filter (\<lambda>c. resolution c = k) cs)) / real n)
   \<and> sorted_wrt (\<lambda>a b. snd (snd a) > snd (snd b)
                  \<or> (snd (snd a) = snd (snd b)
                      \<and> first_seen resolution cs (fst a) < first_seen resolution cs (fst b)))
        (res_emitted cs)
   \<and> ((k', m', n') \<in> set (fps_emitted cs)
      \<longleftrightarrow> k' \<in> fps_rounded ` set cs \<and> 0 < k'
          \<and> n' = length (filter (\<lambda>c. fps_rounded c = k') cs) \<and> 3 \<le> n'
          \<and> m' = sum_list (map bytes_per_second (filter (\<lambda>c. fps_rounded c = k') cs)) / real n')
   \<and> sorted_wrt (\<lambda>a b. snd (snd a) > snd (snd b)
                  \<or> (snd (snd a) = snd (snd b)
                      \<and> first_seen fps_rounded cs (fst a) < first_seen fps_rounded cs (fst b)))
        (fps_emitted cs)"
proof -
  have a: "(k, m, n) \<in> set (res_emitted cs)
      \<longleftrightarrow> k \<in> resolution ` set cs
          \<and> n = length (filter (\<lambda>c. resolution c = k) cs) \<and> 3 \<le> n
          \<and> m = sum_list (map bytes_per_second (filter (\<lambda>c. resolution c = k) cs)) / real n"
    using shown_groups_member[of k m n "\<lambda>_. True" resolution cs]
    by (simp add: res_emitted_def res_groups_def)
  have b: "sorted_wrt (\<lambda>a b. snd (snd a) > snd (snd b)
                  \<or> (snd (snd a) = snd (snd b)
                      \<and> first_seen resolution cs (fst a) < first_seen resolution cs (fst b)))
        (res_emitted cs)"
    using shown_groups_order[of resolution cs "\<lambda>_. True"]
    by (simp add: res_emitted_def res_groups_def)
  have c: "(k', m', n') \<in> set (fps_emitted cs)
      \<longleftrightarrow> k' \<in> fps_rounded ` set cs \<and> 0 < k'
          \<and> n' = length (filter (\<lambda>c. fps_rounded c = k') cs) \<and> 3 \<le> n'
          \<and> m' = sum_list (map bytes_per_second (filter (\<lambda>c. fps_rounded c = k') cs)) / real n'"
    using shown_groups_member[of k' m' n' "\<lambda>k. 0 < k" fps_rounded cs]
    by (simp add: fps_emitted_def fps_groups_def)
  have d: "sorted_wrt (\<lambda>a b. snd (snd a) > snd (snd b)
                  \<or> (snd (snd a) = snd (snd b)
                      \<and> first_seen fps_rounded cs (fst a) < first_seen fps_rounded cs (fst b)))
        (fps_emitted cs)"
    using shown_groups_order[of fps_rounded cs "\<lambda>k. 0 < k"]
    by (simp add: fps_emitted_def fps_groups_def)
  from a b c d show ?thesis by (intro conjI)
qed

text \<open>
  The theorem on \<open>mixed_sample\<close>: the resolutions with three clips each are both shown, the
  one met first before the other; the frame rate 60 is shown and the key 0 is not,
  although its group has three samples.
\<close>

theorem emitted_groups_witness:
  "(''640x480'', 61 / 3, 3) \<in> set (res_emitted mixed_sample)
   \<and> (''1280x720'', 100 / 3, 3) \<in> set (res_emitted mixed_sample)
   \<and> sorted_wrt (\<lambda>a b. snd (snd a) > snd (snd b)
                  \<or> (snd (snd a) = snd (snd b)
                      \<and> first_seen resolution mixed_sample (fst a)
                          < first_seen resolution mixed_sample (fst b)))
        (res_emitted mixed_sample)
   \<and> first_seen resolution mixed_sample ''1280x720'' = 0
   \<and> first_seen resolution mixed_sample ''640x480'' = 4
   \<and> (60, 130 / 3, 3) \<in> set (fps_emitted mixed_sample)
   \<and> (0, 61 / 3, 3) \<notin> set (fps_emitted mixed_sample)
   \<and> sorted_wrt (\<lambda>a b. snd (snd a) > snd (snd b)
                  \<or> (snd (snd a) = snd (snd b)
                      \<and> first_seen fps_rounded mixed_sample (fst a)
                          < first_seen fps_rounded mixed_sample (fst b)))
        (fps_emitted mixed_sample)"
proof -
  have r: "filter (\<lambda>c. resolution c = ''640x480'') mixed_sample
             = [clip_of (640, 480) None 50, clip_of (640, 480) None 5, clip_of (640, 480) (Some 0) 6]"
    "filter (\<lambda>c. resolution c = ''1280x720'') mixed_sample
             = [clip_of (1280, 720) (Some 29.97) 10, clip_of (1280, 720) (Some 30) 30,
                clip_of (1280, 720) (Some 30) 60]"
    by (simp_all add: mixed_sample_def sample_resolutions)
  have f: "filter (\<lambda>c. fps_rounded c = 60) mixed_sample
             = [clip_of (1920, 1080) (Some 60) 20, clip_of (1920, 1080) (Some 59.94) 40,
                clip_of (1920, 1080) (Some 60) 70]"
    by (simp add: mixed_sample_def fps_rounded_def truthy_def sample_rates)
  have s: "first_seen resolution mixed_sample ''1280x720'' = 0"
    "first_seen resolution mixed_sample ''640x480'' = 4"
    by (simp_all add: first_seen_def mixed_sample_def sample_resolutions)
  have k: "''640x480'' \<in> resolution ` set mixed_sample" "''1280x720'' \<in> resolution ` set mixed_sample"
    "60 \<in> fps_rounded ` set mixed_sample"
    using mixed_sample_resolutions mixed_sample_rates by (simp_all flip: set_map)
  from emitted_groups [of "''640x480''" "61 / 3" 3 mixed_sample 60 "130 / 3" 3]
    emitted_groups [of "''1280x720''" "100 / 3" 3 mixed_sample 0 "61 / 3" 3]
  show ?thesis
    by (simp add: r f s k)
qed


subsection \<open>A baseline whose mean is zero\<close>

lemma build_record_fields:
  "fps (build_record name fsize md) = clip_fps md"
  "duration (build_record name fsize md) = clip_duration md"
  "has_audio (build_record name fsize md) = clip_audio md"
  "pixels_per_frame (build_record name fsize md)
     = (case clip_size md of Some (w, h) \<Rightarrow> w * h | None \<Rightarrow> 0)"
  by (simp_all add: build_record_def Let_def)

lemma scan_files_stills_and_one:
  "clips_data (scan_files stills_and_one)
     = replicate 6 (build_record ''still.mp4'' 1000 (hd_meta 0 (Some 30)))
       @ [build_record ''clip.mp4'' 1000 (hd_meta 1 (Some 30))]"
  "file_count (scan_files stills_and_one) = 7"
  by (simp_all add: scan_files_def stills_and_one_def eval_nat_numeral)

lemma zero_mean_raises:
  assumes "normals \<noteq> []"
    and "mean (truthy_fps highs) = Inr hf" and "mean (truthy_fps normals) = Inr nf" and "nf \<noteq> 0"
    and "highs \<noteq> []"
    and "sum_list (map bitrate normals) = 0"
  shows "compare_high_to_normal highs normals = Inl ZeroDivisionError"
proof -
  have "mean (map bitrate normals) = Inr 0" "\<exists>hb. mean (map bitrate highs) = Inr hb"
    using assms by (simp_all add: mean_def)
  then show ?thesis
    using assms
    by (auto simp: compare_high_to_normal_def Let_def printed_percent_def percent_diff_def
        py_div_def)
qed

lemma stills_and_one_section:
  "outlier_section single_ok (clips_data (scan_files stills_and_one)) = Inl ZeroDivisionError"
proof -
  define still where "still = build_record ''still.mp4'' 1000 (hd_meta 0 (Some 30))"
  define one where "one = build_record ''clip.mp4'' 1000 (hd_meta 1 (Some 30))"
  define cs where "cs = [still, still, still, still, still, still, one]"
  have cs: "clips_data (scan_files stills_and_one) = cs"
    by (simp add: scan_files_stills_and_one cs_def still_def one_def eval_nat_numeral)
  have f: "bytes_per_second still = 0" "bytes_per_second one = 1000"
    "bitrate still = 0" "bitrate one = 8000" "fps still = Some 30" "fps one = Some 30"
    by (simp_all add: still_def one_def hd_meta_def build_record_bytes_per_second
        build_record_bitrate build_record_fields)
  have q: "quartiles single_ok (map bytes_per_second cs) = Inr (0, 0)"
    by (simp add: cs_def f quartiles_def quantiles_def upt_1_4 py_index_def exclusive_cut_def)
  have d: "detect_outliers single_ok cs =
      Inr \<lparr> lower_bound = 0, upper_bound = 0, outliers = [one], high_outliers = [one],
            low_outliers = [] \<rparr>"
    unfolding detect_outliers_def q by (simp add: cs_def f Let_def)
  have l: "list_outliers \<lparr> lower_bound = 0, upper_bound = 0, outliers = [one],
             high_outliers = [one], low_outliers = [] \<rparr> = Inr ([one], [])"
    by (simp add: list_outliers_def sorted_desc_def show_outliers_def f)
  have n: "filter (\<lambda>c. 0 \<le> bytes_per_second c \<and> bytes_per_second c \<le> 0) cs
             = [still, still, still, still, still, still]"
    by (simp add: cs_def f)
  have c: "compare_high_to_normal [one] [still, still, still, still, still, still]
             = Inl ZeroDivisionError"
    by (rule zero_mean_raises[where hf = 30 and nf = 30])
       (simp_all add: truthy_fps_def truthy_def mean_def f)
  show ?thesis
    unfolding cs outlier_section_def d by (simp add: l n c)
qed

text \<open>
  Claim C5 fails on the code. Six clips of duration zero and one ordinary clip: the
  ordinary clip is the only high outlier, the six others are the normal clips and their
  mean bitrate is zero, and the percentage of line 290 divides by it. The
  ZeroDivisionError is not caught.
\<close>

theorem zero_baseline_division:
  "outlier_section False (clips_data (scan_files stills_and_one)) = Inl ZeroDivisionError
   \<and> outlier_section True (clips_data (scan_files stills_and_one)) = Inl ZeroDivisionError"
  by (simp add: stills_and_one_section)

text \<open>
  Claim C10 fails on the code. The directory exists, seven files match and all are
  analysed, and the function returns nothing: the exception of the outlier section
  leaves it.
\<close>

theorem analyzer_raises:
  "analyze_clips_advanced False \<lparr> dir_exists = True, mp4_files = stills_and_one \<rparr>
     = Inl ZeroDivisionError
   \<and> analyze_clips_advanced True \<lparr> dir_exists = True, mp4_files = stills_and_one \<rparr>
     = Inl ZeroDivisionError"
proof -
  have "stills_and_one \<noteq> []" by (simp add: stills_and_one_def)
  then show ?thesis
    by (simp add: analyze_clips_advanced_def Let_def scan_files_stills_and_one(2)
        stills_and_one_section)
qed

lemma single_file_raises:
  "analyze_clips_advanced False
     \<lparr> dir_exists = True, mp4_files = [(''clip.mp4'', Probed 1000 (hd_meta 1 (Some 30)) None)] \<rparr>
     = Inl StatisticsError"
  by (simp add: analyze_clips_advanced_def Let_def scan_files_def outlier_section_def
      detect_outliers_def quartiles_def quantiles_def)


subsection \<open>What the function returns when it returns\<close>

lemma foldl_scan_file:
  "clips_data (foldl scan_file st fs) =
     clips_data st @ concat (map (\<lambda>(n, p). case p of ProbeFailed _ \<Rightarrow> []
                                    | Probed s md _ \<Rightarrow> [build_record n s md]) fs)"
  "file_count (foldl scan_file st fs) =
     file_count st + length (filter (\<lambda>(n, p). case p of Probed _ _ None \<Rightarrow> True | _ \<Rightarrow> False) fs)"
  "errors (foldl scan_file st fs) =
     errors st @ concat (map (\<lambda>(n, p). case p of ProbeFailed m \<Rightarrow> [(n, m)]
                                    | Probed _ _ None \<Rightarrow> []
                                    | Probed _ _ (Some m) \<Rightarrow> [(n, m)]) fs)"
proof (induction fs arbitrary: st)
  case Nil
  { case 1 show ?case by simp next
    case 2 show ?case by simp next
    case 3 show ?case by simp }
next
  case (Cons f fs)
  obtain n p where f: "f = (n, p)" by (cases f)
  { case 1 show ?case unfolding f
      by (cases p; cases "case p of Probed _ _ e \<Rightarrow> e | _ \<Rightarrow> None") (simp_all add: Cons.IH)
  next
    case 2 show ?case unfolding f
      by (cases p; cases "case p of Probed _ _ e \<Rightarrow> e | _ \<Rightarrow> None") (simp_all add: Cons.IH)
  next
    case 3 show ?case unfolding f
      by (cases p; cases "case p of Probed _ _ e \<Rightarrow> e | _ \<Rightarrow> None") (simp_all add: Cons.IH) }
qed

lemma scan_files_records:
  "clips_data (scan_files fs) =
     concat (map (\<lambda>(n, p). case p of ProbeFailed _ \<Rightarrow> []
                     | Probed s md _ \<Rightarrow> [build_record n s md]) fs)"
  "file_count (scan_files fs) =
     length (filter (\<lambda>(n, p). case p of Probed _ _ None \<Rightarrow> True | _ \<Rightarrow> False) fs)"
  by (simp_all add: scan_files_def foldl_scan_file)

text \<open>
  Whenever the function returns, it returns nothing exactly when the directory is
  missing, no file matches or no file was counted, and otherwise the list of records in
  the order of the files; the error list is no part of the value.
\<close>

lemma analyzer_returns:
  assumes "analyze_clips_advanced single_ok d = Inr x"
  shows "(x = None \<longleftrightarrow> \<not> dir_exists d \<or> mp4_files d = []
                        \<or> file_count (scan_files (mp4_files d)) = 0)
       \<and> (x \<noteq> None \<longrightarrow> x = Some (clips_data (scan_files (mp4_files d))))"
  using assms
  by (auto simp: analyze_clips_advanced_def Let_def bindE_Inr_iff split: if_splits)

subsection \<open>The comparison and its findings\<close>

lemma percent_diff_Inr: "percent_diff a b = Inr p \<longleftrightarrow> b \<noteq> 0 \<and> p = (a / b - 1) * 100"
  by (auto simp: percent_diff_def py_div_def)

lemma printed_percent_Inr:
  "printed_percent True a b = Inr p \<longleftrightarrow> b \<noteq> 0 \<and> p = Some ((a / b - 1) * 100)"
  by (auto simp: printed_percent_def percent_diff_def py_div_def)

lemma compare_unfolded:
  assumes "compare_high_to_normal highs normals = Inr c" and "normals \<noteq> []"
  shows "\<exists>hf nf hb nb hd nd hp np.
      mean (truthy_fps highs) = Inr hf \<and> mean (truthy_fps normals) = Inr nf \<and> nf \<noteq> 0
    \<and> mean (map bitrate highs) = Inr hb \<and> mean (map bitrate normals) = Inr nb \<and> nb \<noteq> 0
    \<and> mean (map duration highs) = Inr hd \<and> mean (map duration normals) = Inr nd \<and> nd \<noteq> 0
    \<and> mean (map (\<lambda>c. of_int (pixels_per_frame c)) highs) = Inr hp
    \<and> mean (map (\<lambda>c. of_int (pixels_per_frame c)) normals) = Inr np \<and> np \<noteq> 0
    \<and> c = \<lparr> normal_clips = normals,
            high_avg_fps = hf, normal_avg_fps = nf,
            fps_percent = Some ((hf / nf - 1) * 100),
            high_avg_bitrate = hb, normal_avg_bitrate = nb,
            bitrate_percent = Some ((hb / nb - 1) * 100),
            high_avg_duration = hd, normal_avg_duration = nd,
            duration_percent = Some ((hd / nd - 1) * 100),
            high_audio_pct = audio_pct highs, normal_audio_pct = audio_pct normals,
            high_avg_pixels = hp, normal_avg_pixels = np,
            pixels_percent = Some ((hp / np - 1) * 100),
            findings =
              (if \<bar>(hf / nf - 1) * 100\<bar> > 10 then [FpsDifference ((hf / nf - 1) * 100)] else [])
            @ (if \<bar>(hb / nb - 1) * 100\<bar> > 10 then [BitrateDifference ((hb / nb - 1) * 100)] else [])
            @ (if \<bar>(hp / np - 1) * 100\<bar> > 10 then [ResolutionDifference ((hp / np - 1) * 100)] else [])
            @ (if \<bar>audio_pct highs - audio_pct normals\<bar> > 20
               then [AudioPresenceDifference (audio_pct highs - audio_pct normals)] else []) \<rparr>"
proof -
  obtain hf where hf: "mean (truthy_fps highs) = Inr hf"
    using assms by (cases "mean (truthy_fps highs)") (simp_all add: compare_high_to_normal_def)
  obtain nf where nf: "mean (truthy_fps normals) = Inr nf"
    using assms hf by (cases "mean (truthy_fps normals)") (simp_all add: compare_high_to_normal_def)
  have nf0: "nf \<noteq> 0"
    using assms hf nf
    by (auto simp: compare_high_to_normal_def printed_percent_def percent_diff_def py_div_def)
  note s1 = hf nf nf0
  obtain hb where hb: "mean (map bitrate highs) = Inr hb"
    using assms s1 by (cases "mean (map bitrate highs)")
      (simp_all add: compare_high_to_normal_def printed_percent_def percent_diff_def py_div_def)
  obtain nb where nb: "mean (map bitrate normals) = Inr nb"
    using assms s1 hb by (cases "mean (map bitrate normals)")
      (simp_all add: compare_high_to_normal_def printed_percent_def percent_diff_def py_div_def)
  have nb0: "nb \<noteq> 0"
    using assms s1 hb nb
    by (auto simp: compare_high_to_normal_def printed_percent_def percent_diff_def py_div_def)
  note s2 = s1 hb nb nb0
  obtain hd where hd: "mean (map duration highs) = Inr hd"
    using assms s2 by (cases "mean (map duration highs)")
      (simp_all add: compare_high_to_normal_def printed_percent_def percent_diff_def py_div_def)
  obtain nd where nd: "mean (map duration normals) = Inr nd"
    using assms s2 hd by (cases "mean (map duration normals)")
      (simp_all add: compare_high_to_normal_def printed_percent_def percent_diff_def py_div_def)
  have nd0: "nd \<noteq> 0"
    using assms s2 hd nd
    by (auto simp: compare_high_to_normal_def printed_percent_def percent_diff_def py_div_def)
  note s3 = s2 hd nd nd0
  obtain hp where hp: "mean (map (\<lambda>c. of_int (pixels_per_frame c)) highs) = Inr hp"
    using assms s3 by (cases "mean (map (\<lambda>c. of_int (pixels_per_frame c)) highs)")
      (simp_all add: compare_high_to_normal_def printed_percent_def percent_diff_def py_div_def
        Let_def)
  obtain np where np: "mean (map (\<lambda>c. of_int (pixels_per_frame c)) normals) = Inr np"
    using assms s3 hp by (cases "mean (map (\<lambda>c. of_int (pixels_per_frame c)) normals)")
      (simp_all add: compare_high_to_normal_def printed_percent_def percent_diff_def py_div_def
        Let_def)
  have np0: "np \<noteq> 0"
    using assms s3 hp np
    by (auto simp: compare_high_to_normal_def printed_percent_def percent_diff_def py_div_def
        Let_def)
  note s4 = s3 hp np np0
  have "compare_high_to_normal highs normals = Inr \<lparr> normal_clips = normals,
            high_avg_fps = hf, normal_avg_fps = nf,
            fps_percent = Some ((hf / nf - 1) * 100),
            high_avg_bitrate = hb, normal_avg_bitrate = nb,
            bitrate_percent = Some ((hb / nb - 1) * 100),
            high_avg_duration = hd, normal_avg_duration = nd,
            duration_percent = Some ((hd / nd - 1) * 100),
            high_audio_pct = audio_pct highs, normal_audio_pct = audio_pct normals,
            high_avg_pixels = hp, normal_avg_pixels = np,
            pixels_percent = Some ((hp / np - 1) * 100),
            findings =
              (if \<bar>(hf / nf - 1) * 100\<bar> > 10 then [FpsDifference ((hf / nf - 1) * 100)] else [])
            @ (if \<bar>(hb / nb - 1) * 100\<bar> > 10 then [BitrateDifference ((hb / nb - 1) * 100)] else [])
            @ (if \<bar>(hp / np - 1) * 100\<bar> > 10 then [ResolutionDifference ((hp / np - 1) * 100)] else [])
            @ (if \<bar>audio_pct highs - audio_pct normals\<bar> > 20
               then [AudioPresenceDifference (audio_pct highs - audio_pct normals)] else []) \<rparr>"
    unfolding compare_high_to_normal_def Let_def key_findings_def printed_percent_def
      percent_diff_def py_div_def
    using s4 assms(2) by (simp only: bindE_Inr if_True if_False simp_thms)
  with assms(1) s4 show ?thesis by (intro exI conjI) (assumption | simp)+
qed

lemma surfaced_of_findings:
  assumes "findings c = (if A then [FpsDifference a] else [])
                      @ (if B then [BitrateDifference b] else [])
                      @ (if C then [ResolutionDifference r] else [])
                      @ (if D then [AudioPresenceDifference d] else [])"
  shows "surfaced c Fps = A" "surfaced c Bitrate = B" "surfaced c PixelsPerFrame = C"
    "surfaced c AudioPresence = D" "\<not> surfaced c Duration"
  by (auto simp: surfaced_def assms)

text \<open>
  Claim C7, as amended. With a non-empty normal group, whenever the comparison returns:
  the frame rate, the bitrate and the pixels per frame are each a finding exactly when
  the absolute value of their percentage difference exceeds 10, the audio presence
  exactly when the absolute difference of the two rates exceeds 20, and the duration is
  never a finding, although its percentage difference is computed and printed.
\<close>

theorem findings_thresholds:
  assumes "compare_high_to_normal highs normals = Inr c" and "normals \<noteq> []"
  shows "fps_percent c = Some ((high_avg_fps c / normal_avg_fps c - 1) * 100)
       \<and> bitrate_percent c = Some ((high_avg_bitrate c / normal_avg_bitrate c - 1) * 100)
       \<and> pixels_percent c = Some ((high_avg_pixels c / normal_avg_pixels c - 1) * 100)
       \<and> duration_percent c = Some ((high_avg_duration c / normal_avg_duration c - 1) * 100)
       \<and> (surfaced c Fps \<longleftrightarrow> \<bar>(high_avg_fps c / normal_avg_fps c - 1) * 100\<bar> > 10)
       \<and> (surfaced c Bitrate
            \<longleftrightarrow> \<bar>(high_avg_bitrate c / normal_avg_bitrate c - 1) * 100\<bar> > 10)
       \<and> (surfaced c PixelsPerFrame
            \<longleftrightarrow> \<bar>(high_avg_pixels c / normal_avg_pixels c - 1) * 100\<bar> > 10)
       \<and> (surfaced c AudioPresence \<longleftrightarrow> \<bar>high_audio_pct c - normal_audio_pct c\<bar> > 20)
       \<and> \<not> surfaced c Duration"
proof -
  from compare_unfolded[OF assms] obtain hf nf hb nb hd nd hp np where
    c: "c = \<lparr> normal_clips = normals,
            high_avg_fps = hf, normal_avg_fps = nf,
            fps_percent = Some ((hf / nf - 1) * 100),
            high_avg_bitrate = hb, normal_avg_bitrate = nb,
            bitrate_percent = Some ((hb / nb - 1) * 100),
            high_avg_duration = hd, normal_avg_duration = nd,
            duration_percent = Some ((hd / nd - 1) * 100),
            high_audio_pct = audio_pct highs, normal_audio_pct = audio_pct normals,
            high_avg_pixels = hp, normal_avg_pixels = np,
            pixels_percent = Some ((hp / np - 1) * 100),
            findings =
              (if \<bar>(hf / nf - 1) * 100\<bar> > 10 then [FpsDifference ((hf / nf - 1) * 100)] else [])
            @ (if \<bar>(hb / nb - 1) * 100\<bar> > 10 then [BitrateDifference ((hb / nb - 1) * 100)] else [])
            @ (if \<bar>(hp / np - 1) * 100\<bar> > 10 then [ResolutionDifference ((hp / np - 1) * 100)] else [])
            @ (if \<bar>audio_pct highs - audio_pct normals\<bar> > 20
               then [AudioPresenceDifference (audio_pct highs - audio_pct normals)] else []) \<rparr>"
    by blast
  have f: "findings c =
              (if \<bar>(high_avg_fps c / normal_avg_fps c - 1) * 100\<bar> > 10
               then [FpsDifference ((hf / nf - 1) * 100)] else [])
            @ (if \<bar>(high_avg_bitrate c / normal_avg_bitrate c - 1) * 100\<bar> > 10
               then [BitrateDifference ((hb / nb - 1) * 100)] else [])
            @ (if \<bar>(high_avg_pixels c / normal_avg_pixels c - 1) * 100\<bar> > 10
               then [ResolutionDifference ((hp / np - 1) * 100)] else [])
            @ (if \<bar>high_audio_pct c - normal_audio_pct c\<bar> > 20
               then [AudioPresenceDifference (audio_pct highs - audio_pct normals)] else [])"
    unfolding c by (simp only: comparison.simps)
  have p: "fps_percent c = Some ((high_avg_fps c / normal_avg_fps c - 1) * 100)"
    "bitrate_percent c = Some ((high_avg_bitrate c / normal_avg_bitrate c - 1) * 100)"
    "pixels_percent c = Some ((high_avg_pixels c / normal_avg_pixels c - 1) * 100)"
    "duration_percent c = Some ((high_avg_duration c / normal_avg_duration c - 1) * 100)"
    unfolding c by (simp_all only: comparison.simps)
  show ?thesis
    by (simp only: p surfaced_of_findings[OF f] simp_thms)
qed

lemma replicate_6: "replicate 6 x = [x, x, x, x, x, x]"
  by (simp add: eval_nat_numeral)

lemma long_short_fields:
  "bytes_per_second long_clip = 10000" "bitrate long_clip = 80000" "fps long_clip = Some 30"
  "duration long_clip = 2" "pixels_per_frame long_clip = 2073600" "has_audio long_clip"
  "bytes_per_second (build_record ''short.mp4'' 1000 (hd_meta 1 (Some 30))) = 1000"
  "bitrate (build_record ''short.mp4'' 1000 (hd_meta 1 (Some 30))) = 8000"
  "fps (build_record ''short.mp4'' 1000 (hd_meta 1 (Some 30))) = Some 30"
  "duration (build_record ''short.mp4'' 1000 (hd_meta 1 (Some 30))) = 1"
  "pixels_per_frame (build_record ''short.mp4'' 1000 (hd_meta 1 (Some 30))) = 2073600"
  "has_audio (build_record ''short.mp4'' 1000 (hd_meta 1 (Some 30)))"
  by (simp_all add: long_clip_def hd_meta_def build_record_bytes_per_second build_record_bitrate
      build_record_fields)

lemma compare_long_to_short:
  "compare_high_to_normal [long_clip] short_clips = Inr long_vs_short"
proof -
  define s where "s = build_record ''short.mp4'' 1000 (hd_meta 1 (Some 30))"
  have sc: "short_clips = [s, s, s, s, s, s]"
    by (simp add: short_clips_def replicate_6 s_def)
  note f = long_short_fields[folded s_def]
  have m: "mean (truthy_fps [long_clip]) = Inr 30" "mean (truthy_fps [s, s, s, s, s, s]) = Inr 30"
    "mean (map bitrate [long_clip]) = Inr 80000" "mean (map bitrate [s, s, s, s, s, s]) = Inr 8000"
    "mean (map duration [long_clip]) = Inr 2" "mean (map duration [s, s, s, s, s, s]) = Inr 1"
    "mean (map (\<lambda>c. of_int (pixels_per_frame c)) [long_clip]) = Inr 2073600"
    "mean (map (\<lambda>c. of_int (pixels_per_frame c)) [s, s, s, s, s, s]) = Inr 2073600"
    "audio_pct [long_clip] = 100" "audio_pct [s, s, s, s, s, s] = 100"
    by (simp_all add: mean_def truthy_fps_def truthy_def audio_pct_def f)
  have p: "printed_percent True 30 30 = Inr (Some 0)" "printed_percent True 80000 8000 = Inr (Some 900)"
    "printed_percent True 2 1 = Inr (Some 100)"
    "printed_percent True 2073600 2073600 = Inr (Some 0)"
    by (simp_all add: printed_percent_def percent_diff_def py_div_def)
  have k: "key_findings 30 30 80000 8000 2073600 2073600 100 100 = Inr [BitrateDifference 900]"
    by (simp add: key_findings_def percent_diff_def py_div_def)
  show ?thesis
    unfolding compare_high_to_normal_def Let_def long_vs_short_def
    unfolding sc m
    by (simp only: bindE_Inr p k list.simps if_True simp_thms)
qed

text \<open>
  Claim C7 as stated fails for the duration: the long clip against six short ones has a
  duration difference of 100 percent and no finding for it.
\<close>

theorem duration_not_surfaced:
  "compare_high_to_normal [long_clip] short_clips = Inr long_vs_short
   \<and> normal_clips long_vs_short = short_clips \<and> length short_clips = 6
   \<and> duration_percent long_vs_short = Some 100
   \<and> \<not> surfaced long_vs_short Duration"
proof -
  have "normal_clips long_vs_short = short_clips" "duration_percent long_vs_short = Some 100"
    "\<not> surfaced long_vs_short Duration"
    by (simp_all add: long_vs_short_def surfaced_def)
  moreover have "length short_clips = 6"
    by (simp add: short_clips_def)
  ultimately show ?thesis
    by (simp only: compare_long_to_short simp_thms)
qed

text \<open>
  The theorem on the same comparison: the bitrate is the only finding.
\<close>

theorem findings_thresholds_witness:
  "fps_percent long_vs_short = Some 0 \<and> \<not> surfaced long_vs_short Fps
   \<and> bitrate_percent long_vs_short = Some 900 \<and> surfaced long_vs_short Bitrate
   \<and> \<not> surfaced long_vs_short PixelsPerFrame \<and> \<not> surfaced long_vs_short AudioPresence
   \<and> \<not> surfaced long_vs_short Duration"
proof -
  have n: "short_clips \<noteq> []" by (simp add: short_clips_def replicate_6)
  have v: "high_avg_fps long_vs_short = 30" "normal_avg_fps long_vs_short = 30"
    "high_avg_bitrate long_vs_short = 80000" "normal_avg_bitrate long_vs_short = 8000"
    "high_avg_pixels long_vs_short = normal_avg_pixels long_vs_short"
    "normal_avg_pixels long_vs_short \<noteq> 0"
    "high_audio_pct long_vs_short = normal_audio_pct long_vs_short"
    by (simp_all add: long_vs_short_def)
  from findings_thresholds[OF compare_long_to_short n] show ?thesis
    by (simp add: v)
qed

subsection \<open>Which outlier class is compared\<close>

lemma no_outliers_no_high:
  assumes "detect_outliers single_ok cs = Inr d" and "outliers d = []"
  shows "high_outliers d = []" "low_outliers d = []"
proof -
  from assms(1) have o: "outliers d = filter (\<lambda>c. bytes_per_second c < lower_bound d
                                   \<or> bytes_per_second c > upper_bound d) cs"
    and h: "high_outliers d = filter (\<lambda>c. bytes_per_second c > upper_bound d) cs"
    and l: "low_outliers d = filter (\<lambda>c. bytes_per_second c < lower_bound d) cs"
    by (auto elim: detect_outliers_Inr)
  from o assms(2) have "filter (\<lambda>c. bytes_per_second c < lower_bound d
                                   \<or> bytes_per_second c > upper_bound d) cs = []"
    by simp
  then show "high_outliers d = []" "low_outliers d = []"
    unfolding h l by (auto simp: filter_empty_conv)
qed

text \<open>
  Claim C6, as amended. Whenever the outlier section returns, it has run the comparison
  with the normal clips for the high outliers exactly when there are any, and never one
  for the low outliers.
\<close>

theorem comparison_for_high_only:
  assumes "outlier_section single_ok cs = Inr r"
  shows "(high_outliers (detected r) = [] \<longrightarrow> comparisons r = [])
       \<and> (high_outliers (detected r) \<noteq> [] \<longrightarrow>
            (\<exists>c. comparisons r = [(HighOutlier, c)]
               \<and> compare_high_to_normal (high_outliers (detected r))
                    (filter (\<lambda>x. lower_bound (detected r) \<le> bytes_per_second x
                               \<and> bytes_per_second x \<le> upper_bound (detected r)) cs) = Inr c))
       \<and> LowOutlier \<notin> fst ` set (comparisons r)"
proof -
  from outlier_section_Inr[OF assms] obtain d hs ls where
    d: "detect_outliers single_ok cs = Inr d"
    and r: "detected r = d\<lparr>high_outliers := hs, low_outliers := ls\<rparr>"
    and e: "outliers d = [] \<longrightarrow> hs = high_outliers d \<and> ls = low_outliers d \<and> comparisons r = []"
    and n: "outliers d \<noteq> [] \<and> hs = [] \<longrightarrow> comparisons r = []"
    and c: "outliers d \<noteq> [] \<and> hs \<noteq> [] \<longrightarrow>
           (\<exists>c. compare_high_to_normal hs
                 (filter (\<lambda>c. lower_bound d \<le> bytes_per_second c
                            \<and> bytes_per_second c \<le> upper_bound d) cs) = Inr c
               \<and> comparisons r = [(HighOutlier, c)])"
    by blast
  have f: "high_outliers (detected r) = hs" "lower_bound (detected r) = lower_bound d"
    "upper_bound (detected r) = upper_bound d"
    by (simp_all add: r)
  show ?thesis
  proof (cases "outliers d = []")
    case True
    with e no_outliers_no_high[OF d] show ?thesis by (simp add: f)
  next
    case False
    with n c show ?thesis unfolding f by (cases "hs = []") auto
  qed
qed

lemma section_low_only:
  "outlier_section single_ok low_outlier_sample = Inr low_only_report"
proof -
  define a where "a = example_clip 1"
  define b where "b = example_clip 100"
  have cs: "low_outlier_sample = [a, b, b, b, b, b, b]"
    by (simp add: low_outlier_sample_def replicate_6 a_def b_def)
  have f: "bytes_per_second a = 1" "bytes_per_second b = 100" "fps a = Some 30"
    by (simp_all add: a_def b_def) (simp add: example_clip_def hd_meta_def build_record_fields)
  have q: "quartiles single_ok (map bytes_per_second [a, b, b, b, b, b, b]) = Inr (100, 100)"
    by (simp add: f quartiles_def quantiles_def upt_1_4 py_index_def exclusive_cut_def)
  have d: "detect_outliers single_ok [a, b, b, b, b, b, b] =
      Inr \<lparr> lower_bound = 100, upper_bound = 100, outliers = [a], high_outliers = [],
            low_outliers = [a] \<rparr>"
    unfolding detect_outliers_def q by (simp add: f Let_def)
  have l: "list_outliers \<lparr> lower_bound = 100, upper_bound = 100, outliers = [a],
             high_outliers = [], low_outliers = [a] \<rparr> = Inr ([], [a])"
    by (simp add: list_outliers_def show_outliers_def f)
  show ?thesis
    unfolding cs outlier_section_def d low_only_report_def a_def[symmetric]
    by (simp add: l)
qed

text \<open>
  Claim C6 as stated fails: a run whose only outlier is a low one computes no
  comparison.
\<close>

theorem low_outliers_not_compared:
  "outlier_section False low_outlier_sample = Inr low_only_report
   \<and> outlier_section True low_outlier_sample = Inr low_only_report
   \<and> low_outliers (detected low_only_report) = [example_clip 1]
   \<and> comparisons low_only_report = []"
proof -
  have "low_outliers (detected low_only_report) = [example_clip 1]"
    "comparisons low_only_report = []"
    by (simp_all add: low_only_report_def)
  then show ?thesis
    by (simp only: section_low_only simp_thms)
qed

lemma section_short_and_long:
  "outlier_section single_ok (short_clips @ [long_clip]) =
     Inr \<lparr> detected = \<lparr> lower_bound = 1000, upper_bound = 1000, outliers = [long_clip],
                          high_outliers = [long_clip], low_outliers = [] \<rparr>,
           comparisons = [(HighOutlier, long_vs_short)] \<rparr>"
proof -
  define s where "s = build_record ''short.mp4'' 1000 (hd_meta 1 (Some 30))"
  have sc: "short_clips = [s, s, s, s, s, s]"
    by (simp add: short_clips_def replicate_6 s_def)
  note f = long_short_fields[folded s_def]
  have q: "quartiles single_ok (map bytes_per_second ([s, s, s, s, s, s] @ [long_clip]))
             = Inr (1000, 1000)"
    by (simp add: f quartiles_def quantiles_def upt_1_4 py_index_def exclusive_cut_def)
  have d: "detect_outliers single_ok ([s, s, s, s, s, s] @ [long_clip]) =
      Inr \<lparr> lower_bound = 1000, upper_bound = 1000, outliers = [long_clip],
            high_outliers = [long_clip], low_outliers = [] \<rparr>"
    unfolding detect_outliers_def q by (simp add: f Let_def)
  have l: "list_outliers \<lparr> lower_bound = 1000, upper_bound = 1000, outliers = [long_clip],
             high_outliers = [long_clip], low_outliers = [] \<rparr> = Inr ([long_clip], [])"
    by (simp add: list_outliers_def sorted_desc_def show_outliers_def f)
  note c = compare_long_to_short[unfolded sc]
  show ?thesis
    unfolding sc outlier_section_def d
    by (simp add: l f c)
qed

text \<open>
  The theorem on the six short clips and the long one.
\<close>

theorem comparison_for_high_only_witness:
  "\<exists>r r'. outlier_section False (short_clips @ [long_clip]) = Inr r
      \<and> high_outliers (detected r) = [long_clip]
      \<and> comparisons r = [(HighOutlier, long_vs_short)]
      \<and> LowOutlier \<notin> fst ` set (comparisons r)
      \<and> outlier_section False low_outlier_sample = Inr r'
      \<and> high_outliers (detected r') = []
      \<and> comparisons r' = []"
proof -
  obtain r where r: "outlier_section False (short_clips @ [long_clip]) = Inr r"
    and h: "high_outliers (detected r) = [long_clip]"
    and b: "lower_bound (detected r) = 1000" "upper_bound (detected r) = 1000"
    by (simp add: section_short_and_long)
  have n: "filter (\<lambda>c. 1000 \<le> bytes_per_second c \<and> bytes_per_second c \<le> 1000)
             short_clips = short_clips"
    by (simp add: short_clips_def replicate_6 long_short_fields)
  from comparison_for_high_only[OF r]
  have c: "comparisons r = [(HighOutlier, long_vs_short)]" "LowOutlier \<notin> fst ` set (comparisons r)"
    by (simp_all add: h b n long_short_fields compare_long_to_short)
  have r': "outlier_section False low_outlier_sample = Inr low_only_report"
    by (rule section_low_only)
  have h': "high_outliers (detected low_only_report) = []"
    by (simp add: low_only_report_def)
  from comparison_for_high_only[OF r'] h' have "comparisons low_only_report = []"
    by simp
  with r h c r' h' show ?thesis by blast
qed



subsection \<open>The fence example, end to end\<close>

lemma example_clip_fields [simp]:
  "fps (example_clip b) = Some 30" "bitrate (example_clip b) = of_int (b * 8)"
  "duration (example_clip b) = 1" "pixels_per_frame (example_clip b) = 2073600"
  "has_audio (example_clip b)"
  by (simp_all add: example_clip_def hd_meta_def build_record_fields build_record_bitrate)

lemma compare_returns:
  assumes "truthy_fps highs \<noteq> []" and "truthy_fps normals \<noteq> []"
    and "sum_list (truthy_fps normals) \<noteq> 0" and "sum_list (map bitrate normals) \<noteq> 0"
    and "sum_list (map duration normals) \<noteq> 0"
    and "sum_list (map (\<lambda>c. real_of_int (pixels_per_frame c)) normals) \<noteq> 0"
  shows "\<exists>c. compare_high_to_normal highs normals = Inr c"
proof -
  have ne: "highs \<noteq> []" "normals \<noteq> []"
    using assms(1,2) by (auto simp: truthy_fps_def)
  then show ?thesis
    using assms
    by (simp add: compare_high_to_normal_def Let_def mean_def printed_percent_def
        percent_diff_def py_div_def key_findings_def)
qed

text \<open>
  The example of the specification: a sample with \<open>Q1 = 10\<close> and \<open>Q3 = 30\<close> has the bounds
  \<open>-20\<close> and \<open>60\<close>; 65 is a high outlier, 45 is no outlier and \<open>-25\<close> is a low outlier;
  in the comparison of the run, 45 is among the normal clips and 65 is not.
\<close>

theorem iqr_fence_classification_witness:
  "\<exists>d r cmp. detect_outliers False fence_sample = Inr d
     \<and> lower_bound d = -20 \<and> upper_bound d = 60
     \<and> example_clip 65 \<in> set (high_outliers d)
     \<and> example_clip 45 \<in> set fence_sample \<and> example_clip 45 \<notin> set (outliers d)
     \<and> example_clip (-25) \<in> set (low_outliers d)
     \<and> outlier_section False fence_sample = Inr r
     \<and> (HighOutlier, cmp) \<in> set (comparisons r)
     \<and> example_clip 45 \<in> set (normal_clips cmp)
     \<and> example_clip 65 \<notin> set (normal_clips cmp)"
proof -
  obtain d where d: "detect_outliers False fence_sample = Inr d"
    by (simp add: detect_outliers_def fence_sample_quartiles Let_def)
  from iqr_fence_classification[OF d]
  obtain q1 q3 where q: "quartiles False (map bytes_per_second fence_sample) = Inr (q1, q3)"
    and lb: "lower_bound d = q1 - 1.5 * (q3 - q1)"
    and ub: "upper_bound d = q3 + 1.5 * (q3 - q1)"
    and lo: "low_outliers d = filter (\<lambda>c. bytes_per_second c < lower_bound d) fence_sample"
    and hi: "high_outliers d = filter (\<lambda>c. bytes_per_second c > upper_bound d) fence_sample"
    and out: "outliers d = filter (\<lambda>c. bytes_per_second c < lower_bound d
                                  \<or> bytes_per_second c > upper_bound d) fence_sample"
    and nc: "\<forall>r cmp. outlier_section False fence_sample = Inr r
               \<and> (HighOutlier, cmp) \<in> set (comparisons r)
            \<longrightarrow> normal_clips cmp =
                  filter (\<lambda>c. \<not> bytes_per_second c < lower_bound d
                            \<and> \<not> bytes_per_second c > upper_bound d) fence_sample"
    by blast
  from q have "q1 = 10" "q3 = 30" by (simp_all add: fence_sample_quartiles)
  with lb ub have b: "lower_bound d = -20" "upper_bound d = 60" by simp_all
  have m: "example_clip 65 \<in> set fence_sample" "example_clip 45 \<in> set fence_sample"
    "example_clip (-25) \<in> set fence_sample"
    by (simp_all add: fence_sample_def)
  have h: "high_outliers d = [example_clip 65]" and l: "low_outliers d = [example_clip (-25)]"
    and o: "outliers d = [example_clip (-25), example_clip 65]"
    unfolding hi lo out b by (simp_all add: fence_sample_def)
  have ls: "list_outliers d = Inr ([example_clip 65], [example_clip (-25)])"
    by (simp add: list_outliers_def h l sorted_desc_def show_outliers_def)
  have n: "filter (\<lambda>c. lower_bound d \<le> bytes_per_second c \<and> bytes_per_second c \<le> upper_bound d)
             fence_sample
           = map example_clip [10, 10, 20, 20, 20, 20, 20, 30, 45]"
    unfolding b by (simp add: fence_sample_def)
  obtain c where c: "compare_high_to_normal [example_clip 65]
                       (map example_clip [10, 10, 20, 20, 20, 20, 20, 30, 45]) = Inr c"
    using compare_returns[of "[example_clip 65]" "map example_clip [10, 10, 20, 20, 20, 20, 20, 30, 45]"]
    by (auto simp: truthy_fps_def truthy_def)
  have r: "outlier_section False fence_sample =
             Inr \<lparr> detected = d\<lparr>high_outliers := [example_clip 65],
                                low_outliers := [example_clip (-25)]\<rparr>,
                   comparisons = [(HighOutlier, c)] \<rparr>"
    unfolding outlier_section_def d by (simp add: o ls n c[unfolded list.map])
  from nc r have "normal_clips c =
                  filter (\<lambda>c. \<not> bytes_per_second c < lower_bound d
                            \<and> \<not> bytes_per_second c > upper_bound d) fence_sample"
    by simp
  then have k: "example_clip 45 \<in> set (normal_clips c)" "example_clip 65 \<notin> set (normal_clips c)"
    using m by (simp_all add: b)
  from d b m r k show ?thesis
    by (intro exI[of _ d] exI[of _ "\<lparr> detected = d\<lparr>high_outliers := [example_clip 65],
                                low_outliers := [example_clip (-25)]\<rparr>,
                   comparisons = [(HighOutlier, c)] \<rparr>"] exI[of _ c])
       (simp add: lo hi out)
qed


end
